theory Spec2Isabelle
  imports Main "HOL-Library.Word"
begin

unbundle bit_operations_syntax

section \<open>Data model of cat25256.h\<close>

text \<open>
  The driver talks to a CAT25256 serial EEPROM through four function pointers stored in a
  handle.  The embedding below follows \<^verbatim>\<open>cat25256.h\<close> and \<^verbatim>\<open>cat25256.c\<close> function by
  function.

  \<^item> \<^verbatim>\<open>memory_status_t\<close> is the enum of the header.
  \<^item> \<^verbatim>\<open>uint8_t\<close> and \<^verbatim>\<open>uint32_t\<close> are words; \<^verbatim>\<open>size_t\<close> and the loop counter \<^verbatim>\<open>int i\<close>
    hold values below \<open>2 ^ 26 + 2\<close> in this code and are natural numbers; the one
    conversion of an unsigned difference to \<^verbatim>\<open>int\<close> (in the unaligned splitter) is read
    with \<open>sint\<close>.
  \<^item> A function pointer is an optional function; \<open>None\<close> is the \<^verbatim>\<open>NULL\<close> pointer, and the
    handle pointer itself is optional for the same reason.  The field \<^verbatim>\<open>write\<close> is spelled
    \<open>write'\<close>, since \<open>write\<close> is a keyword of Isabelle, and the parameter \<^verbatim>\<open>length\<close> is
    spelled \<open>len\<close>, since \<open>length\<close> is the length of a list.
  \<^item> What \<^verbatim>\<open>low_level_handle\<close> points to is the mutable state \<open>'d\<close> of the bus and of the
    device behind it.  It is threaded through every capability call.
  \<^item> A pointer with a length is the list of the bytes it denotes: the call
    \<^verbatim>\<open>write(ctx, p, n)\<close> hands over \<open>take n\<close> of the bytes at \<^verbatim>\<open>p\<close>, and \<^verbatim>\<open>&data[k]\<close> is
    \<open>drop k data\<close>.
\<close>

datatype memory_status_t =
  MEMORY_STATUS_OK | MEMORY_STATUS_NOK | MEMORY_STATUS_INVALID_HANDLE

type_synonym u8 = "8 word"
type_synonym u32 = "32 word"
type_synonym chip_select = nat

record 'd cat25256_handle_t =
  read :: "('d \<Rightarrow> u32 \<Rightarrow> memory_status_t \<times> u8 list \<times> 'd) option"
  write' :: "('d \<Rightarrow> u8 list \<Rightarrow> memory_status_t \<times> 'd) option"
  cs_enable :: "('d \<Rightarrow> chip_select \<Rightarrow> memory_status_t \<times> 'd) option"
  cs_disable :: "('d \<Rightarrow> chip_select \<Rightarrow> memory_status_t \<times> 'd) option"

text \<open>
  The \<open>read\<close> capability returns the bytes it stored at the start of the buffer it was
  given; it may store fewer than asked.

  Every capability call is recorded on \<open>bus\<close>, in order.  The field \<open>pages\<close> records every
  return of \<^verbatim>\<open>cat25256_write_page\<close> with the address and length it was called with and the
  status it returned.  Both fields are for observation only: no decision of the driver
  reads them.
\<close>

datatype bus_event =
  CsEnable chip_select | CsDisable chip_select | BusWrite "u8 list" | BusRead u32

record 'd world =
  dev :: 'd
  bus :: "bus_event list"
  pages :: "(u32 \<times> u32 \<times> memory_status_t) list"

text \<open>
  A call through a \<^verbatim>\<open>NULL\<close> pointer is a fault of its own, distinct from every status.
  A run of the driver either never returns (\<open>None\<close>), faults, or returns a value.
\<close>

datatype fault = NullDereference

type_synonym 'a run = "(fault + 'a) option"

definition ret :: "'a \<Rightarrow> 'a run" where
  "ret x = Some (Inr x)"

definition and_then :: "'a run \<Rightarrow> ('a \<Rightarrow> 'b run) \<Rightarrow> 'b run" where
  "and_then m f =
     (case m of None \<Rightarrow> None | Some (Inl e) \<Rightarrow> Some (Inl e) | Some (Inr x) \<Rightarrow> f x)"

subsection \<open>Opcodes and constants\<close>

definition WREN :: u8 where "WREN = 6"
definition WRDI :: u8 where "WRDI = 4"
definition RDSR :: u8 where "RDSR = 5"
definition WRSR :: u8 where "WRSR = 1"
definition READ :: u8 where "READ = 3"
definition WRITE :: u8 where "WRITE = 2"
definition NREADY :: u8 where "NREADY = 1"
definition PAGE_SIZE :: nat where "PAGE_SIZE = 64"

section \<open>Calls through the handle\<close>

text \<open>
  \<^verbatim>\<open>handle->cs_enable(handle->low_level_handle, cs)\<close> and its three siblings.
\<close>

definition call_cs_enable ::
  "'d cat25256_handle_t option \<Rightarrow> chip_select \<Rightarrow> 'd world \<Rightarrow> (memory_status_t \<times> 'd world) run"
where
  "call_cs_enable handle cs w =
     (case handle of
        None \<Rightarrow> Some (Inl NullDereference)
      | Some h \<Rightarrow>
          (case cs_enable h of
             None \<Rightarrow> Some (Inl NullDereference)
           | Some f \<Rightarrow>
               (case f (dev w) cs of
                  (rc, d) \<Rightarrow> ret (rc, w\<lparr>dev := d, bus := bus w @ [CsEnable cs]\<rparr>))))"

definition call_cs_disable ::
  "'d cat25256_handle_t option \<Rightarrow> chip_select \<Rightarrow> 'd world \<Rightarrow> (memory_status_t \<times> 'd world) run"
where
  "call_cs_disable handle cs w =
     (case handle of
        None \<Rightarrow> Some (Inl NullDereference)
      | Some h \<Rightarrow>
          (case cs_disable h of
             None \<Rightarrow> Some (Inl NullDereference)
           | Some f \<Rightarrow>
               (case f (dev w) cs of
                  (rc, d) \<Rightarrow> ret (rc, w\<lparr>dev := d, bus := bus w @ [CsDisable cs]\<rparr>))))"

definition call_write ::
  "'d cat25256_handle_t option \<Rightarrow> u8 list \<Rightarrow> u32 \<Rightarrow> 'd world \<Rightarrow> (memory_status_t \<times> 'd world) run"
where
  "call_write handle data len w =
     (case handle of
        None \<Rightarrow> Some (Inl NullDereference)
      | Some h \<Rightarrow>
          (case write' h of
             None \<Rightarrow> Some (Inl NullDereference)
           | Some f \<Rightarrow>
               (case f (dev w) (take (unat len) data) of
                  (rc, d) \<Rightarrow>
                    ret (rc, w\<lparr>dev := d, bus := bus w @ [BusWrite (take (unat len) data)]\<rparr>))))"

definition call_read ::
  "'d cat25256_handle_t option \<Rightarrow> u32 \<Rightarrow> 'd world \<Rightarrow> (memory_status_t \<times> u8 list \<times> 'd world) run"
where
  "call_read handle len w =
     (case handle of
        None \<Rightarrow> Some (Inl NullDereference)
      | Some h \<Rightarrow>
          (case read h of
             None \<Rightarrow> Some (Inl NullDereference)
           | Some f \<Rightarrow>
               (case f (dev w) len of
                  (rc, bytes, d) \<Rightarrow>
                    ret (rc, take (unat len) bytes, w\<lparr>dev := d, bus := bus w @ [BusRead len]\<rparr>))))"

text \<open>The buffer after the \<open>read\<close> capability stored \<open>bytes\<close> at its start.\<close>

definition stored :: "u8 list \<Rightarrow> u8 list \<Rightarrow> u8 list" where
  "stored bytes data = take (length data) (bytes @ drop (length bytes) data)"

section \<open>The driver, cat25256.c\<close>

definition cat25256_check_handle :: "'d cat25256_handle_t option \<Rightarrow> memory_status_t" where
  "cat25256_check_handle handle =
     (case handle of
        None \<Rightarrow> MEMORY_STATUS_INVALID_HANDLE
      | Some h \<Rightarrow>
          if Option.is_none (read h) then MEMORY_STATUS_INVALID_HANDLE
          else if Option.is_none (cs_disable h) then MEMORY_STATUS_INVALID_HANDLE
          else if Option.is_none (cs_enable h) then MEMORY_STATUS_INVALID_HANDLE
          else if Option.is_none (write' h) then MEMORY_STATUS_INVALID_HANDLE
          else MEMORY_STATUS_OK)"

definition cat25256_atomic_read ::
  "'d cat25256_handle_t option \<Rightarrow> u32 \<Rightarrow> u8 list \<Rightarrow> u32 \<Rightarrow> chip_select \<Rightarrow> 'd world
     \<Rightarrow> (memory_status_t \<times> u8 list \<times> 'd world) run"
where
  "cat25256_atomic_read handle address data len cs w =
     (let header = [READ, ucast (drop_bit 8 address), ucast address] in
      and_then (call_cs_enable handle cs w) (\<lambda>(_, w1).
      and_then (call_write handle header 3 w1) (\<lambda>(rc1, w2).
        if rc1 \<noteq> MEMORY_STATUS_OK then
          and_then (call_cs_disable handle cs w2) (\<lambda>(_, w3).
          ret (MEMORY_STATUS_NOK, data, w3))
        else
          and_then (call_read handle len w2) (\<lambda>(rc, bytes, w3).
          and_then (call_cs_disable handle cs w3) (\<lambda>(_, w4).
          ret (rc, stored bytes data, w4))))))"

definition cat25256_read ::
  "'d cat25256_handle_t option \<Rightarrow> u32 \<Rightarrow> u8 list \<Rightarrow> u32 \<Rightarrow> chip_select \<Rightarrow> 'd world
     \<Rightarrow> (memory_status_t \<times> u8 list \<times> 'd world) run"
where
  "cat25256_read handle address data len cs w =
     (let rc = cat25256_check_handle handle in
      if rc \<noteq> MEMORY_STATUS_OK then ret (rc, data, w)
      else cat25256_atomic_read handle address data len cs w)"

definition cat25256_atomic_write_latch ::
  "'d cat25256_handle_t option \<Rightarrow> u8 \<Rightarrow> chip_select \<Rightarrow> 'd world \<Rightarrow> (memory_status_t \<times> 'd world) run"
where
  "cat25256_atomic_write_latch handle enable cs w =
     and_then (call_cs_enable handle cs w) (\<lambda>(_, w1).
     and_then (call_write handle [enable] 1 w1) (\<lambda>(rc, w2).
     and_then (call_cs_disable handle cs w2) (\<lambda>(_, w3).
     ret (rc, w3))))"

definition cat25256_atomic_write_latch_enable ::
  "'d cat25256_handle_t option \<Rightarrow> chip_select \<Rightarrow> 'd world \<Rightarrow> (memory_status_t \<times> 'd world) run"
where
  "cat25256_atomic_write_latch_enable handle cs w =
     (let enable = WREN in cat25256_atomic_write_latch handle enable cs w)"

definition cat25256_atomic_write_latch_disable ::
  "'d cat25256_handle_t option \<Rightarrow> chip_select \<Rightarrow> 'd world \<Rightarrow> (memory_status_t \<times> 'd world) run"
where
  "cat25256_atomic_write_latch_disable handle cs w =
     (let disable = WRDI in cat25256_atomic_write_latch handle disable cs w)"

text \<open>
  \<^verbatim>\<open>cat25256_read_register\<close> takes the byte \<^verbatim>\<open>*data\<close> and returns its new value with the
  status: the byte is untouched unless the \<open>read\<close> capability stored one.
\<close>

definition cat25256_read_register ::
  "'d cat25256_handle_t option \<Rightarrow> u8 \<Rightarrow> chip_select \<Rightarrow> 'd world
     \<Rightarrow> (memory_status_t \<times> u8 \<times> 'd world) run"
where
  "cat25256_read_register handle data cs w =
     (let rc = cat25256_check_handle handle in
      if rc \<noteq> MEMORY_STATUS_OK then ret (rc, data, w)
      else
        let read_reg = RDSR in
        and_then (call_cs_enable handle cs w) (\<lambda>(_, w1).
        and_then (call_write handle [read_reg] 1 w1) (\<lambda>(rc1, w2).
          if rc1 \<noteq> MEMORY_STATUS_OK then
            and_then (call_cs_disable handle cs w2) (\<lambda>(_, w3).
            ret (MEMORY_STATUS_NOK, data, w3))
          else
            and_then (call_read handle 1 w2) (\<lambda>(rc2, bytes, w3).
            and_then (call_cs_disable handle cs w3) (\<lambda>(_, w4).
            ret (rc2, (case bytes of [] \<Rightarrow> data | b # _ \<Rightarrow> b), w4))))))"

definition cat25256_write_register ::
  "'d cat25256_handle_t option \<Rightarrow> u8 \<Rightarrow> chip_select \<Rightarrow> 'd world \<Rightarrow> (memory_status_t \<times> 'd world) run"
where
  "cat25256_write_register handle data cs w =
     (let write_reg = [WRSR, data];
          rc = cat25256_check_handle handle in
      if rc \<noteq> MEMORY_STATUS_OK then ret (rc, w)
      else
        and_then (call_cs_enable handle cs w) (\<lambda>(_, w1).
        and_then (call_write handle write_reg 2 w1) (\<lambda>(rc1, w2).
        and_then (call_cs_disable handle cs w2) (\<lambda>(_, w3).
        ret (rc1, w3)))))"

text \<open>
  The loop of \<^verbatim>\<open>cat25256_atomic_wait_wip_completed\<close>, with the local \<^verbatim>\<open>wip\<close> as an
  argument.  The source puts no bound on it, so it is a partial function: \<open>None\<close> is the
  run that polls forever.
\<close>

partial_function (option) cat25256_atomic_wait_wip_loop ::
  "'d cat25256_handle_t option \<Rightarrow> chip_select \<Rightarrow> u8 \<Rightarrow> 'd world \<Rightarrow> (memory_status_t \<times> 'd world) run"
where
  "cat25256_atomic_wait_wip_loop handle cs wip w =
     (if wip AND NREADY \<noteq> 0 then
        (case cat25256_read_register handle wip cs w of
           None \<Rightarrow> None
         | Some (Inl e) \<Rightarrow> Some (Inl e)
         | Some (Inr (rc, wip', w')) \<Rightarrow>
             if rc \<noteq> MEMORY_STATUS_OK then Some (Inr (MEMORY_STATUS_NOK, w'))
             else cat25256_atomic_wait_wip_loop handle cs wip' w')
      else Some (Inr (MEMORY_STATUS_OK, w)))"

declare cat25256_atomic_wait_wip_loop.simps [code]

definition cat25256_atomic_wait_wip_completed ::
  "'d cat25256_handle_t option \<Rightarrow> chip_select \<Rightarrow> 'd world \<Rightarrow> (memory_status_t \<times> 'd world) run"
where
  "cat25256_atomic_wait_wip_completed handle cs w =
     (let wip = NREADY in cat25256_atomic_wait_wip_loop handle cs wip w)"

definition cat25256_atomic_write ::
  "'d cat25256_handle_t option \<Rightarrow> u32 \<Rightarrow> u8 list \<Rightarrow> u32 \<Rightarrow> chip_select \<Rightarrow> 'd world
     \<Rightarrow> (memory_status_t \<times> 'd world) run"
where
  "cat25256_atomic_write handle address data len cs w =
     (let header = [WRITE, ucast (drop_bit 8 address), ucast address] in
      and_then (call_cs_enable handle cs w) (\<lambda>(_, w1).
      and_then (call_write handle header 3 w1) (\<lambda>(rc1, w2).
        if rc1 \<noteq> MEMORY_STATUS_OK then
          and_then (call_cs_disable handle cs w2) (\<lambda>(_, w3).
          ret (MEMORY_STATUS_NOK, w3))
        else
          and_then (call_write handle data len w2) (\<lambda>(rc, w3).
          and_then (call_cs_disable handle cs w3) (\<lambda>(_, w4).
          ret (rc, w4))))))"

text \<open>Appends one entry to \<open>pages\<close> when a page write returns.\<close>

definition page_returned :: "u32 \<Rightarrow> u32 \<Rightarrow> (memory_status_t \<times> 'd world) run \<Rightarrow> (memory_status_t \<times> 'd world) run" where
  "page_returned address len m =
     and_then m (\<lambda>(rc, w). ret (rc, w\<lparr>pages := pages w @ [(address, len, rc)]\<rparr>))"

definition cat25256_write_page ::
  "'d cat25256_handle_t option \<Rightarrow> u32 \<Rightarrow> u8 list \<Rightarrow> u32 \<Rightarrow> chip_select \<Rightarrow> 'd world
     \<Rightarrow> (memory_status_t \<times> 'd world) run"
where
  "cat25256_write_page handle address data len cs w =
     page_returned address len
      (let rc = cat25256_check_handle handle in
       if rc \<noteq> MEMORY_STATUS_OK then ret (rc, w)
       else
         and_then (cat25256_write_register handle NREADY cs w) (\<lambda>(rc1, w1).
           if rc1 \<noteq> MEMORY_STATUS_OK then ret (MEMORY_STATUS_NOK, w1)
           else
             and_then (cat25256_atomic_write_latch_enable handle cs w1) (\<lambda>(rc2, w2).
               if rc2 \<noteq> MEMORY_STATUS_OK then ret (MEMORY_STATUS_NOK, w2)
               else
                 and_then (cat25256_atomic_write handle address data len cs w2) (\<lambda>(rc3, w3).
                   if rc3 \<noteq> MEMORY_STATUS_OK then
                     and_then (cat25256_atomic_write_latch_disable handle cs w3) (\<lambda>(_, w4).
                     ret (MEMORY_STATUS_NOK, w4))
                   else
                     and_then (cat25256_atomic_write_latch_disable handle cs w3) (\<lambda>(_, w4).
                     and_then (cat25256_atomic_wait_wip_completed handle cs w4) (\<lambda>(rc5, w5).
                       if rc5 \<noteq> MEMORY_STATUS_OK then ret (MEMORY_STATUS_NOK, w5)
                       else ret (rc, w5)))))))"

text \<open>
  The \<^verbatim>\<open>for\<close> loop of \<^verbatim>\<open>cat25256_write_address_aligned\<close>, with \<^verbatim>\<open>page_count\<close> and \<^verbatim>\<open>i\<close> as
  arguments.  \<^verbatim>\<open>address + i * PAGE_SIZE\<close> is computed in \<^verbatim>\<open>uint32_t\<close> and wraps.  (For a
  length of \<open>2 ^ 31\<close> bytes or more, the product \<^verbatim>\<open>i * PAGE_SIZE\<close> leaves the range of
  \<^verbatim>\<open>int\<close>, which C does not define; the model takes the address the wrapped product
  gives.  The device holds \<open>2 ^ 15\<close> bytes.)
\<close>

function cat25256_write_address_aligned_loop ::
  "'d cat25256_handle_t option \<Rightarrow> u32 \<Rightarrow> u8 list \<Rightarrow> u32 \<Rightarrow> chip_select \<Rightarrow> nat \<Rightarrow> nat \<Rightarrow> 'd world
     \<Rightarrow> (memory_status_t \<times> 'd world) run"
where
  "cat25256_write_address_aligned_loop handle address data len cs page_count i w =
     (if i < page_count then
        (if i = page_count - 1 then
           and_then
             (cat25256_write_page handle (address + of_nat (i * PAGE_SIZE))
                (drop (i * PAGE_SIZE) data) (len mod of_nat PAGE_SIZE) cs w)
             (\<lambda>(rc, w').
                if rc \<noteq> MEMORY_STATUS_OK then ret (rc, w')
                else cat25256_write_address_aligned_loop handle address data len cs page_count (i + 1) w')
         else
           and_then
             (cat25256_write_page handle (address + of_nat (i * PAGE_SIZE))
                (drop (i * PAGE_SIZE) data) (of_nat PAGE_SIZE) cs w)
             (\<lambda>(rc, w').
                if rc \<noteq> MEMORY_STATUS_OK then ret (rc, w')
                else cat25256_write_address_aligned_loop handle address data len cs page_count (i + 1) w'))
      else ret (MEMORY_STATUS_OK, w))"
  by pat_completeness auto
termination
  by (relation "measure (\<lambda>(handle, address, data, len, cs, page_count, i, w). page_count - i)") auto

definition cat25256_write_address_aligned ::
  "'d cat25256_handle_t option \<Rightarrow> u32 \<Rightarrow> u8 list \<Rightarrow> u32 \<Rightarrow> chip_select \<Rightarrow> 'd world
     \<Rightarrow> (memory_status_t \<times> 'd world) run"
where
  "cat25256_write_address_aligned handle address data len cs w =
     (let page_count = unat (len div of_nat PAGE_SIZE);
          page_count = (if len mod of_nat PAGE_SIZE \<noteq> 0 then page_count + 1 else page_count)
      in cat25256_write_address_aligned_loop handle address data len cs page_count 0 w)"

definition cat25256_write_address_unaligned ::
  "'d cat25256_handle_t option \<Rightarrow> u32 \<Rightarrow> u8 list \<Rightarrow> u32 \<Rightarrow> chip_select \<Rightarrow> 'd world
     \<Rightarrow> (memory_status_t \<times> 'd world) run"
where
  "cat25256_write_address_unaligned handle address data len cs w =
     (let length_first_transmission = PAGE_SIZE - unat (address mod of_nat PAGE_SIZE);
          length_first_transmission =
            (if length_first_transmission > unat len then unat len else length_first_transmission)
      in
      and_then (cat25256_write_page handle address data (of_nat length_first_transmission) cs w)
        (\<lambda>(rc, w1).
           if rc \<noteq> MEMORY_STATUS_OK then ret (rc, w1)
           else
             let length_remainder = sint (len - of_nat length_first_transmission) in
             if length_remainder > 0 then
               cat25256_write_address_aligned handle (address + of_nat length_first_transmission)
                 (drop length_first_transmission data) (word_of_int length_remainder) cs w1
             else ret (rc, w1)))"

definition cat25256_write ::
  "'d cat25256_handle_t option \<Rightarrow> u32 \<Rightarrow> u8 list \<Rightarrow> u32 \<Rightarrow> chip_select \<Rightarrow> 'd world
     \<Rightarrow> (memory_status_t \<times> 'd world) run"
where
  "cat25256_write handle address data len cs w =
     (if len \<le> of_nat PAGE_SIZE then cat25256_write_page handle address data len cs w
      else if address mod of_nat PAGE_SIZE = 0 then
        cat25256_write_address_aligned handle address data len cs w
      else cat25256_write_address_unaligned handle address data len cs w)"

section \<open>Observations on a run\<close>

text \<open>
  What a chip-select scope looks like on the bus: one enable of \<open>cs\<close>, then transfers
  only, then one disable of \<open>cs\<close>, which is the last event.
\<close>

fun is_transfer :: "bus_event \<Rightarrow> bool" where
  "is_transfer (BusWrite _) = True"
| "is_transfer (BusRead _) = True"
| "is_transfer _ = False"

definition cs_bracketed :: "chip_select \<Rightarrow> bus_event list \<Rightarrow> bool" where
  "cs_bracketed cs tr =
     (case tr of
        CsEnable c # rest \<Rightarrow>
          c = cs \<and> rest \<noteq> [] \<and> last rest = CsDisable cs \<and> list_all is_transfer (butlast rest)
      | _ \<Rightarrow> False)"

text \<open>
  A list of page-write returns in which no page write follows a failed one, and whose last
  status is \<open>rc\<close> (\<^verbatim>\<open>MEMORY_STATUS_OK\<close> for the empty list).
\<close>

definition stops_at_first_failure ::
  "memory_status_t \<Rightarrow> (u32 \<times> u32 \<times> memory_status_t) list \<Rightarrow> bool" where
  "stops_at_first_failure rc es =
     (list_all (\<lambda>(a, l, r). r = MEMORY_STATUS_OK) (butlast es)
      \<and> rc = (if es = [] then MEMORY_STATUS_OK else snd (snd (last es))))"

text \<open>The status a run returns.\<close>

definition status_of :: "(memory_status_t \<times> 'a) run \<Rightarrow> (fault + memory_status_t) option" where
  "status_of m =
     (case m of
        None \<Rightarrow> None
      | Some (Inl e) \<Rightarrow> Some (Inl e)
      | Some (Inr x) \<Rightarrow> Some (Inr (fst x)))"

text \<open>The status and the page-write returns of a run, without the device.\<close>

definition pages_of ::
  "(memory_status_t \<times> 'd world) run
     \<Rightarrow> (fault + memory_status_t \<times> (u32 \<times> u32 \<times> memory_status_t) list) option"
where
  "pages_of m =
     (case m of
        None \<Rightarrow> None
      | Some (Inl e) \<Rightarrow> Some (Inl e)
      | Some (Inr (rc, w)) \<Rightarrow> Some (Inr (rc, pages w)))"

text \<open>The status and the bus events of a run, without the device.\<close>

definition bus_of ::
  "(memory_status_t \<times> 'd world) run \<Rightarrow> (fault + memory_status_t \<times> bus_event list) option"
where
  "bus_of m =
     (case m of
        None \<Rightarrow> None
      | Some (Inl e) \<Rightarrow> Some (Inl e)
      | Some (Inr (rc, w)) \<Rightarrow> Some (Inr (rc, bus w)))"

subsection \<open>Page writes in sequence\<close>

text \<open>
  A request is the address, the buffer and the length of one call of
  \<^verbatim>\<open>cat25256_write_page\<close>.  \<open>write_pages\<close> issues requests one after the other: a page write
  is attempted only when the one before it returned \<^verbatim>\<open>MEMORY_STATUS_OK\<close>; the first one
  that returns another status ends the run, and that status is the result.  This is the
  policy the specification states for the splitter.
\<close>

fun write_pages ::
  "'d cat25256_handle_t option \<Rightarrow> chip_select \<Rightarrow> (u32 \<times> u8 list \<times> u32) list \<Rightarrow> 'd world
     \<Rightarrow> (memory_status_t \<times> 'd world) run"
where
  "write_pages handle cs [] w = ret (MEMORY_STATUS_OK, w)"
| "write_pages handle cs ((address, data, len) # ps) w =
     and_then (cat25256_write_page handle address data len cs w) (\<lambda>(rc, w').
       if rc \<noteq> MEMORY_STATUS_OK then ret (rc, w')
       else write_pages handle cs ps w')"

text \<open>
  The requests \<^verbatim>\<open>cat25256_write\<close> makes, in order, as long as none fails: read off its
  three branches, \<^verbatim>\<open>cat25256_write_address_unaligned\<close> and the loop of
  \<^verbatim>\<open>cat25256_write_address_aligned\<close>.  That the driver issues exactly these is proved
  below, in \<open>write_is_write_pages\<close>.
\<close>

definition aligned_requests :: "u32 \<Rightarrow> u8 list \<Rightarrow> u32 \<Rightarrow> (u32 \<times> u8 list \<times> u32) list" where
  "aligned_requests address data len =
     (let page_count = unat (len div of_nat PAGE_SIZE);
          page_count = (if len mod of_nat PAGE_SIZE \<noteq> 0 then page_count + 1 else page_count)
      in map (\<lambda>i. (address + of_nat (i * PAGE_SIZE), drop (i * PAGE_SIZE) data,
                     if i = page_count - 1 then len mod of_nat PAGE_SIZE else of_nat PAGE_SIZE))
           [0..<page_count])"

definition page_requests :: "u32 \<Rightarrow> u8 list \<Rightarrow> u32 \<Rightarrow> (u32 \<times> u8 list \<times> u32) list" where
  "page_requests address data len =
     (if len \<le> of_nat PAGE_SIZE then [(address, data, len)]
      else if address mod of_nat PAGE_SIZE = 0 then aligned_requests address data len
      else
        let length_first_transmission = PAGE_SIZE - unat (address mod of_nat PAGE_SIZE);
            length_first_transmission =
              (if length_first_transmission > unat len then unat len
               else length_first_transmission);
            length_remainder = sint (len - of_nat length_first_transmission)
        in (address, data, of_nat length_first_transmission) #
           (if length_remainder > 0 then
              aligned_requests (address + of_nat length_first_transmission)
                (drop length_first_transmission data) (word_of_int length_remainder)
            else []))"

subsection \<open>A scripted bus\<close>

text \<open>
  A test double for the four capabilities.  Its state is a script: the statuses the next
  calls of \<open>write\<close> return, and the statuses and bytes the next calls of \<open>read\<close> return.
  When a script is used up, \<open>write\<close> succeeds and \<open>read\<close> succeeds with the byte \<open>0\<close>
  (device ready).  Both chip-select capabilities return the status \<open>cs_rc\<close>.
\<close>

type_synonym script = "memory_status_t list \<times> (memory_status_t \<times> u8) list"

definition scripted :: "memory_status_t \<Rightarrow> script cat25256_handle_t" where
  "scripted cs_rc =
     \<lparr> read = Some (\<lambda>(ws, rs) n.
          case rs of [] \<Rightarrow> (MEMORY_STATUS_OK, [0], (ws, rs))
                   | (rc, b) # rs' \<Rightarrow> (rc, [b], (ws, rs'))),
       write' = Some (\<lambda>(ws, rs) bytes.
          case ws of [] \<Rightarrow> (MEMORY_STATUS_OK, (ws, rs))
                   | rc # ws' \<Rightarrow> (rc, (ws', rs))),
       cs_enable = Some (\<lambda>d cs. (cs_rc, d)),
       cs_disable = Some (\<lambda>d cs. (cs_rc, d)) \<rparr>"

text \<open>
  A bus on which every call succeeds and every status register read shows the busy bit:
  a device that never becomes ready.
\<close>

definition always_busy :: "unit cat25256_handle_t" where
  "always_busy =
     \<lparr> read = Some (\<lambda>d n. (MEMORY_STATUS_OK, [NREADY], d)),
       write' = Some (\<lambda>d bytes. (MEMORY_STATUS_OK, d)),
       cs_enable = Some (\<lambda>d cs. (MEMORY_STATUS_OK, d)),
       cs_disable = Some (\<lambda>d cs. (MEMORY_STATUS_OK, d)) \<rparr>"

definition world0 :: "'d \<Rightarrow> 'd world" where
  "world0 d = \<lparr> dev = d, bus = [], pages = [] \<rparr>"

section \<open>Auxiliary facts\<close>

declare cat25256_write_address_aligned_loop.simps [simp del]

lemma pages_of_SomeD:
  "pages_of m = Some (Inr (rc, ps)) \<Longrightarrow> \<exists>w'. m = Some (Inr (rc, w')) \<and> pages w' = ps"
  by (auto simp: pages_of_def split: option.splits sum.splits)

lemma bus_of_SomeD:
  "bus_of m = Some (Inr (rc, tr)) \<Longrightarrow> \<exists>w'. m = Some (Inr (rc, w')) \<and> bus w' = tr"
  by (auto simp: bus_of_def split: option.splits sum.splits)

lemma and_then_simps [simp]:
  "and_then None f = None"
  "and_then (Some (Inl e)) f = Some (Inl e)"
  "and_then (Some (Inr x)) f = f x"
  "and_then (ret x) f = f x"
  by (simp_all add: and_then_def ret_def)

lemma ret_eq_iff [simp]:
  "ret x = ret y \<longleftrightarrow> x = y" "ret x \<noteq> None" "ret x \<noteq> Some (Inl e)"
  "(ret x = Some (Inr y)) = (x = y)" "(Some (Inr y) = ret x) = (y = x)"
  by (auto simp: ret_def)

lemma check_handle_OK_iff:
  "cat25256_check_handle handle = MEMORY_STATUS_OK \<longleftrightarrow>
     (\<exists>h rd wr en dis. handle = Some h \<and> read h = Some rd \<and> write' h = Some wr
        \<and> cs_enable h = Some en \<and> cs_disable h = Some dis)"
  by (auto simp: cat25256_check_handle_def Option.is_none_def split: option.splits)

lemma check_handle_cases:
  "cat25256_check_handle handle = MEMORY_STATUS_OK
   \<or> cat25256_check_handle handle = MEMORY_STATUS_INVALID_HANDLE"
  by (simp add: cat25256_check_handle_def split: option.splits)

lemma check_handle_not_OK:
  "cat25256_check_handle handle \<noteq> MEMORY_STATUS_OK
   \<longleftrightarrow> cat25256_check_handle handle = MEMORY_STATUS_INVALID_HANDLE"
  using check_handle_cases [of handle] by auto

lemma call_cs_enable_valid:
  "cs_enable h = Some en \<Longrightarrow>
   call_cs_enable (Some h) cs w =
     ret (fst (en (dev w) cs), w\<lparr>dev := snd (en (dev w) cs), bus := bus w @ [CsEnable cs]\<rparr>)"
  by (simp add: call_cs_enable_def split_beta)

lemma call_cs_disable_valid:
  "cs_disable h = Some dis \<Longrightarrow>
   call_cs_disable (Some h) cs w =
     ret (fst (dis (dev w) cs), w\<lparr>dev := snd (dis (dev w) cs), bus := bus w @ [CsDisable cs]\<rparr>)"
  by (simp add: call_cs_disable_def split_beta)

lemma call_write_valid:
  "write' h = Some wr \<Longrightarrow>
   call_write (Some h) data len w =
     ret (fst (wr (dev w) (take (unat len) data)),
          w\<lparr>dev := snd (wr (dev w) (take (unat len) data)),
            bus := bus w @ [BusWrite (take (unat len) data)]\<rparr>)"
  by (simp add: call_write_def split_beta)

lemma call_read_valid:
  "read h = Some rd \<Longrightarrow>
   call_read (Some h) len w =
     ret (fst (rd (dev w) len), take (unat len) (fst (snd (rd (dev w) len))),
          w\<lparr>dev := snd (snd (rd (dev w) len)), bus := bus w @ [BusRead len]\<rparr>)"
  by (simp add: call_read_def split_beta)

lemmas call_valid = call_cs_enable_valid call_cs_disable_valid call_write_valid call_read_valid

lemma write_latch_bracketed:
  assumes "cat25256_check_handle handle = MEMORY_STATUS_OK"
  shows "\<exists>rc w' tr. cat25256_atomic_write_latch handle b cs w = ret (rc, w')
           \<and> bus w' = bus w @ tr \<and> pages w' = pages w \<and> cs_bracketed cs tr"
  using assms
  by (auto simp: check_handle_OK_iff cat25256_atomic_write_latch_def call_valid cs_bracketed_def)

lemma write_register_bracketed:
  assumes "cat25256_check_handle handle = MEMORY_STATUS_OK"
  shows "\<exists>rc w' tr. cat25256_write_register handle b cs w = ret (rc, w')
           \<and> bus w' = bus w @ tr \<and> pages w' = pages w \<and> cs_bracketed cs tr"
  using assms
proof -
  from assms obtain h rd wr en dis where h: "handle = Some h" "read h = Some rd"
      "write' h = Some wr" "cs_enable h = Some en" "cs_disable h = Some dis"
    by (auto simp: check_handle_OK_iff)
  from assms h show ?thesis
    by (simp add: cat25256_write_register_def call_valid cs_bracketed_def Let_def)
qed

lemma read_register_bracketed:
  assumes "cat25256_check_handle handle = MEMORY_STATUS_OK"
  shows "\<exists>rc b' w' tr. cat25256_read_register handle b cs w = ret (rc, b', w')
           \<and> bus w' = bus w @ tr \<and> pages w' = pages w \<and> cs_bracketed cs tr"
  using assms
proof -
  from assms obtain h rd wr en dis where h: "handle = Some h" "read h = Some rd"
      "write' h = Some wr" "cs_enable h = Some en" "cs_disable h = Some dis"
    by (auto simp: check_handle_OK_iff)
  from assms h show ?thesis
    by (simp add: cat25256_read_register_def call_valid cs_bracketed_def Let_def)
qed

lemma atomic_write_bracketed:
  assumes "cat25256_check_handle handle = MEMORY_STATUS_OK"
  shows "\<exists>rc w' tr. cat25256_atomic_write handle address data len cs w = ret (rc, w')
           \<and> bus w' = bus w @ tr \<and> pages w' = pages w \<and> cs_bracketed cs tr"
  using assms
  by (auto simp: check_handle_OK_iff cat25256_atomic_write_def call_valid cs_bracketed_def Let_def)



lemma read_register_returns:
  "\<exists>rc b' w'. cat25256_read_register handle b cs w = ret (rc, b', w') \<and> pages w' = pages w"
proof (cases "cat25256_check_handle handle = MEMORY_STATUS_OK")
  case True
  from read_register_bracketed [OF this] show ?thesis by blast
next
  case False
  then show ?thesis by (simp add: cat25256_read_register_def Let_def)
qed

lemma cat25256_atomic_wait_wip_loop_returns:
  assumes "cat25256_atomic_wait_wip_loop handle cs wip w = Some r"
  shows "\<exists>rc w'. r = Inr (rc, w') \<and> pages w' = pages w
           \<and> (rc = MEMORY_STATUS_OK \<or> rc = MEMORY_STATUS_NOK)"
  using assms
proof (induction rule: cat25256_atomic_wait_wip_loop.raw_induct [rotated 1, consumes 1])
  case (1 loop handle cs wip w r)
  obtain rc b' w' where rr: "cat25256_read_register handle wip cs w = ret (rc, b', w')"
      and p: "pages w' = pages w"
    using read_register_returns by blast
  show ?case
  proof (cases "wip AND NREADY \<noteq> 0")
    case False
    with 1(2) show ?thesis by auto
  next
    case True
    show ?thesis
    proof (cases "rc = MEMORY_STATUS_OK")
      case True
      with 1(2) \<open>wip AND NREADY \<noteq> 0\<close> rr have "loop handle cs b' w' = Some r"
        by (simp add: ret_def)
      from 1(1) [OF this] p show ?thesis by simp
    next
      case False
      with 1(2) \<open>wip AND NREADY \<noteq> 0\<close> rr p show ?thesis
        by (auto simp: ret_def)
    qed
  qed
qed

lemma write_latch_returns:
  assumes "cat25256_check_handle handle = MEMORY_STATUS_OK"
  shows "\<exists>rc w'. cat25256_atomic_write_latch handle b cs w = ret (rc, w') \<and> pages w' = pages w"
  using write_latch_bracketed [OF assms] by blast

lemma write_register_returns:
  "\<exists>rc w'. cat25256_write_register handle b cs w = ret (rc, w') \<and> pages w' = pages w"
proof (cases "cat25256_check_handle handle = MEMORY_STATUS_OK")
  case True
  from write_register_bracketed [OF this] show ?thesis by blast
next
  case False
  then show ?thesis by (simp add: cat25256_write_register_def Let_def)
qed

lemma atomic_write_returns:
  assumes "cat25256_check_handle handle = MEMORY_STATUS_OK"
  shows "\<exists>rc w'. cat25256_atomic_write handle address data len cs w = ret (rc, w')
           \<and> pages w' = pages w"
  using atomic_write_bracketed [OF assms] by blast

lemma write_page_invalid:
  assumes "cat25256_check_handle handle \<noteq> MEMORY_STATUS_OK"
  shows "cat25256_write_page handle address data len cs w =
           ret (MEMORY_STATUS_INVALID_HANDLE,
                w\<lparr>pages := pages w @ [(address, len, MEMORY_STATUS_INVALID_HANDLE)]\<rparr>)"
  using assms check_handle_cases [of handle]
  by (auto simp: cat25256_write_page_def page_returned_def Let_def)

lemma write_page_returns:
  assumes "cat25256_write_page handle address data len cs w = Some r"
  shows "\<exists>rc w'. r = Inr (rc, w') \<and> pages w' = pages w @ [(address, len, rc)]"
proof (cases "cat25256_check_handle handle = MEMORY_STATUS_OK")
  case False
  from write_page_invalid [OF this] assms show ?thesis by (auto simp: ret_def)
next
  case valid: True
  obtain rc1 w1 where s1: "cat25256_write_register handle NREADY cs w = ret (rc1, w1)"
      and p1: "pages w1 = pages w"
    using write_register_returns by blast
  obtain rc2 w2 where s2: "cat25256_atomic_write_latch_enable handle cs w1 = ret (rc2, w2)"
      and p2: "pages w2 = pages w1"
    using write_latch_returns [OF valid] unfolding cat25256_atomic_write_latch_enable_def Let_def
    by blast
  obtain rc3 w3 where s3: "cat25256_atomic_write handle address data len cs w2 = ret (rc3, w3)"
      and p3: "pages w3 = pages w2"
    using atomic_write_returns [OF valid] by blast
  obtain rc4 w4 where s4: "cat25256_atomic_write_latch_disable handle cs w3 = ret (rc4, w4)"
      and p4: "pages w4 = pages w3"
    using write_latch_returns [OF valid] unfolding cat25256_atomic_write_latch_disable_def Let_def
    by blast
  show ?thesis
  proof (cases "rc1 = MEMORY_STATUS_OK \<and> rc2 = MEMORY_STATUS_OK \<and> rc3 = MEMORY_STATUS_OK")
    case False
    with assms valid s1 s2 s3 s4 p1 p2 p3 p4 show ?thesis
      by (auto simp: cat25256_write_page_def page_returned_def Let_def ret_def split: if_splits)
  next
    case True
    show ?thesis
    proof (cases "cat25256_atomic_wait_wip_completed handle cs w4")
      case None
      with assms valid s1 s2 s3 s4 True show ?thesis
        by (simp add: cat25256_write_page_def page_returned_def Let_def)
    next
      case (Some x)
      then obtain rc5 w5 where x: "x = Inr (rc5, w5)" and p5: "pages w5 = pages w4"
        using cat25256_atomic_wait_wip_loop_returns [of handle cs NREADY w4 x]
        by (auto simp: cat25256_atomic_wait_wip_completed_def Let_def)
      with assms valid s1 s2 s3 s4 True Some p1 p2 p3 p4 show ?thesis
        by (auto simp: cat25256_write_page_def page_returned_def Let_def ret_def split: if_splits)
    qed
  qed
qed

lemma loop_step:
  "i < page_count \<Longrightarrow>
   cat25256_write_address_aligned_loop handle address data len cs page_count i w =
     and_then
       (cat25256_write_page handle (address + of_nat (i * PAGE_SIZE)) (drop (i * PAGE_SIZE) data)
          (if i = page_count - 1 then len mod of_nat PAGE_SIZE else of_nat PAGE_SIZE) cs w)
       (\<lambda>(rc, w').
          if rc \<noteq> MEMORY_STATUS_OK then ret (rc, w')
          else cat25256_write_address_aligned_loop handle address data len cs page_count (i + 1) w')"
  by (subst cat25256_write_address_aligned_loop.simps) simp

lemma loop_done:
  "\<not> i < page_count \<Longrightarrow>
   cat25256_write_address_aligned_loop handle address data len cs page_count i w = ret (MEMORY_STATUS_OK, w)"
  by (subst cat25256_write_address_aligned_loop.simps) simp

lemma stops_single: "stops_at_first_failure rc [(a, l, rc)]"
  by (simp add: stops_at_first_failure_def)

lemma stops_Cons:
  "stops_at_first_failure rc es \<Longrightarrow> stops_at_first_failure rc ((a, l, MEMORY_STATUS_OK) # es)"
  by (cases es) (auto simp: stops_at_first_failure_def)

lemma and_then_SomeE:
  assumes "and_then m f = Some r"
  obtains e where "m = Some (Inl e)" "r = Inl e" | x where "m = Some (Inr x)" "f x = Some r"
  using assms by (auto simp: and_then_def split: option.splits sum.splits)

lemma loop_stops:
  assumes "cat25256_write_address_aligned_loop handle address data len cs page_count i w = Some r"
  shows "\<exists>rc w' es. r = Inr (rc, w') \<and> pages w' = pages w @ es
           \<and> stops_at_first_failure rc es \<and> (i < page_count \<longrightarrow> es \<noteq> [])"
  using assms
proof (induction "page_count - i" arbitrary: i w)
  case 0
  then have "\<not> i < page_count" by simp
  with 0 show ?case
    by (auto simp: loop_done ret_def stops_at_first_failure_def)
next
  case (Suc n)
  then have lt: "i < page_count" by simp
  let ?a = "address + of_nat (i * PAGE_SIZE)"
  let ?l = "if i = page_count - 1 then len mod of_nat PAGE_SIZE else of_nat PAGE_SIZE"
  let ?d = "drop (i * PAGE_SIZE) data"
  from Suc.prems [unfolded loop_step [OF lt]]
  show ?case
  proof (cases rule: and_then_SomeE)
    case (1 e)
    with write_page_returns [of handle ?a ?d ?l cs w "Inl e"] show ?thesis by auto
  next
    case (2 x)
    with write_page_returns [of handle ?a ?d ?l cs w "Inr x"]
    obtain rc1 w1 where x: "x = (rc1, w1)" and p1: "pages w1 = pages w @ [(?a, ?l, rc1)]"
      by auto
    show ?thesis
    proof (cases "rc1 = MEMORY_STATUS_OK")
      case False
      with 2(2) x have "r = Inr (rc1, w1)" by (simp add: ret_def)
      with p1 stops_single [of rc1 ?a ?l] show ?thesis by auto
    next
      case True
      with 2(2) x have "cat25256_write_address_aligned_loop handle address data len cs page_count (i + 1) w1 = Some r"
        by simp
      moreover from Suc(2) have "n = page_count - (i + 1)" by simp
      ultimately obtain rc w' es where r: "r = Inr (rc, w')" and p: "pages w' = pages w1 @ es"
          and s: "stops_at_first_failure rc es"
        using Suc(1) [of "i + 1" w1] by blast
      from p p1 True have "pages w' = pages w @ ((?a, ?l, MEMORY_STATUS_OK) # es)" by simp
      with r stops_Cons [OF s, of ?a ?l] show ?thesis by blast
    qed
  qed
qed

lemma page_count_pos:
  fixes len :: u32
  assumes "len \<noteq> 0"
  shows "0 < (if len mod of_nat PAGE_SIZE \<noteq> 0 then unat (len div of_nat PAGE_SIZE) + 1
              else unat (len div of_nat PAGE_SIZE))"
proof (cases "len mod of_nat PAGE_SIZE = 0")
  case False
  then show ?thesis by simp
next
  case True
  then have "unat (len mod 64) = 0" by (simp add: PAGE_SIZE_def)
  then have "unat len mod 64 = 0" by (simp add: unat_mod)
  moreover from assms have "unat len \<noteq> 0" by (simp add: unat_eq_0)
  ultimately have "0 < unat len div 64"
    using div_mult_mod_eq [of "unat len" 64] by (cases "unat len div 64 = 0") auto
  then have "0 < unat (len div 64)" by (simp add: unat_div)
  with True show ?thesis by (simp add: PAGE_SIZE_def)
qed

lemma aligned_stops:
  assumes "cat25256_write_address_aligned handle address data len cs w = Some r"
  shows "\<exists>rc w' es. r = Inr (rc, w') \<and> pages w' = pages w @ es
           \<and> stops_at_first_failure rc es \<and> (len \<noteq> 0 \<longrightarrow> es \<noteq> [])"
proof -
  define page_count where "page_count =
     (if len mod of_nat PAGE_SIZE \<noteq> 0 then unat (len div of_nat PAGE_SIZE) + 1
      else unat (len div of_nat PAGE_SIZE))"
  from assms have "cat25256_write_address_aligned_loop handle address data len cs page_count 0 w = Some r"
    unfolding cat25256_write_address_aligned_def Let_def page_count_def .
  from loop_stops [OF this]
  obtain rc w' es where "r = Inr (rc, w')" "pages w' = pages w @ es"
      "stops_at_first_failure rc es" "0 < page_count \<longrightarrow> es \<noteq> []"
    by blast
  moreover have "len \<noteq> 0 \<Longrightarrow> 0 < page_count"
    unfolding page_count_def by (rule page_count_pos)
  ultimately show ?thesis by blast
qed

lemma unaligned_stops:
  assumes "cat25256_write_address_unaligned handle address data len cs w = Some r"
  shows "\<exists>rc w' es. r = Inr (rc, w') \<and> pages w' = pages w @ es
           \<and> stops_at_first_failure rc es \<and> es \<noteq> []"
proof -
  define lft where "lft = (if PAGE_SIZE - unat (address mod of_nat PAGE_SIZE) > unat len
     then unat len else PAGE_SIZE - unat (address mod of_nat PAGE_SIZE))"
  from assms [unfolded cat25256_write_address_unaligned_def Let_def, folded lft_def]
  show ?thesis
  proof (cases rule: and_then_SomeE)
    case (1 e)
    with write_page_returns [of handle address data "of_nat lft" cs w "Inl e"] show ?thesis
      by auto
  next
    case (2 x)
    with write_page_returns [of handle address data "of_nat lft" cs w "Inr x"]
    obtain rc1 w1 where x: "x = (rc1, w1)"
        and p1: "pages w1 = pages w @ [(address, of_nat lft, rc1)]"
      by auto
    show ?thesis
    proof (cases "rc1 = MEMORY_STATUS_OK \<and> sint (len - of_nat lft) > 0")
      case False
      with 2(2) x have "r = Inr (rc1, w1)" by (auto simp: ret_def Let_def split: if_splits)
      with p1 stops_single [of rc1 address "of_nat lft"] show ?thesis by auto
    next
      case True
      with 2(2) x have "cat25256_write_address_aligned handle (address + of_nat lft)
                 (drop lft data) (word_of_int (sint (len - of_nat lft))) cs w1 = Some r"
        by (simp add: Let_def)
      from aligned_stops [OF this]
      obtain rc w' es where r: "r = Inr (rc, w')" and p: "pages w' = pages w1 @ es"
          and s: "stops_at_first_failure rc es"
        by blast
      from p p1 True have "pages w' = pages w @ ((address, of_nat lft, MEMORY_STATUS_OK) # es)"
        by simp
      with r stops_Cons [OF s, of address "of_nat lft"] show ?thesis by blast
    qed
  qed
qed

section \<open>The splitter\<close>

text \<open>
  C3.  For every address and every length of at most one page (64 bytes),
  \<^verbatim>\<open>cat25256_write\<close> is exactly one call of \<^verbatim>\<open>cat25256_write_page\<close> with the whole
  range: it behaves as that call, and when it returns, it has recorded one page-write
  return, with the address and the length of the request.  Alignment plays no role; the
  request of 10 bytes at address 60, which crosses the boundary at 64, is the witness.
\<close>

theorem write_within_one_page_is_one_page_write:
  assumes "unat len \<le> PAGE_SIZE"
  shows "cat25256_write handle address data len cs w
           = cat25256_write_page handle address data len cs w
         \<and> (\<forall>r. cat25256_write handle address data len cs w = Some r \<longrightarrow>
               (\<exists>rc w'. r = Inr (rc, w') \<and> pages w' = pages w @ [(address, len, rc)]))"
proof -
  from assms have "len \<le> of_nat PAGE_SIZE"
    by (simp add: PAGE_SIZE_def word_le_nat_alt)
  then have "cat25256_write handle address data len cs w
           = cat25256_write_page handle address data len cs w"
    by (simp add: cat25256_write_def)
  with write_page_returns [of handle address data len cs w] show ?thesis by auto
qed

theorem write_within_one_page_is_one_page_write_witness:
  "unat (10 :: u32) \<le> PAGE_SIZE
   \<and> cat25256_write (Some (scripted MEMORY_STATUS_OK)) 60 (replicate 10 0xAA) 10 0 (world0 ([], []))
       = cat25256_write_page (Some (scripted MEMORY_STATUS_OK)) 60 (replicate 10 0xAA) 10 0
           (world0 ([], []))
   \<and> pages_of (cat25256_write (Some (scripted MEMORY_STATUS_OK)) 60 (replicate 10 0xAA) 10 0
         (world0 ([], [])))
       = Some (Inr (MEMORY_STATUS_OK, [(60, 10, MEMORY_STATUS_OK)]))"
proof -
  have h: "unat (10 :: u32) \<le> PAGE_SIZE" by (simp add: PAGE_SIZE_def)
  have e: "pages_of (cat25256_write (Some (scripted MEMORY_STATUS_OK)) 60 (replicate 10 0xAA) 10 0
         (world0 ([], [])))
       = Some (Inr (MEMORY_STATUS_OK, [(60, 10, MEMORY_STATUS_OK)]))"
    by code_simp
  from write_within_one_page_is_one_page_write [OF h] h e show ?thesis by blast
qed

lemma write_returned_stops:
  assumes "cat25256_write handle address data len cs w = Some r"
  shows "\<exists>rc w' es. r = Inr (rc, w') \<and> pages w' = pages w @ es \<and> es \<noteq> []
           \<and> stops_at_first_failure rc es"
proof -
  consider (small) "len \<le> of_nat PAGE_SIZE"
    | (aligned) "\<not> len \<le> of_nat PAGE_SIZE" "address mod of_nat PAGE_SIZE = 0"
    | (unaligned) "\<not> len \<le> of_nat PAGE_SIZE" "address mod of_nat PAGE_SIZE \<noteq> 0"
    by blast
  then show ?thesis
  proof cases
    case small
    with assms have "cat25256_write_page handle address data len cs w = Some r"
      by (simp add: cat25256_write_def)
    from write_page_returns [OF this] stops_single show ?thesis by blast
  next
    case aligned
    with assms have "cat25256_write_address_aligned handle address data len cs w = Some r"
      by (simp add: cat25256_write_def)
    moreover from aligned(1) have "len \<noteq> 0" by auto
    ultimately show ?thesis using aligned_stops by blast
  next
    case unaligned
    with assms have "cat25256_write_address_unaligned handle address data len cs w = Some r"
      by (simp add: cat25256_write_def)
    from unaligned_stops [OF this] show ?thesis by blast
  qed
qed

lemma and_then_returns_same:
  "and_then m (\<lambda>(rc, w'). if rc \<noteq> MEMORY_STATUS_OK then ret (rc, w') else ret (MEMORY_STATUS_OK, w'))
     = m"
  by (auto simp: and_then_def ret_def split: option.splits sum.splits)

lemma and_then_cong_ext:
  assumes "\<And>x. m = Some (Inr x) \<Longrightarrow> f x = g x"
  shows "and_then m f = and_then m g"
  using assms by (auto simp: and_then_def split: option.splits sum.splits)

lemma loop_is_write_pages:
  "cat25256_write_address_aligned_loop handle address data len cs page_count i w =
     write_pages handle cs
       (map (\<lambda>j. (address + of_nat (j * PAGE_SIZE), drop (j * PAGE_SIZE) data,
                   if j = page_count - 1 then len mod of_nat PAGE_SIZE else of_nat PAGE_SIZE))
          [i..<page_count]) w"
proof (induction "page_count - i" arbitrary: i w)
  case 0
  then have "\<not> i < page_count" by simp
  then show ?case by (simp add: loop_done)
next
  case (Suc n)
  then have lt: "i < page_count" and n: "n = page_count - (i + 1)" by simp_all
  have IH: "cat25256_write_address_aligned_loop handle address data len cs page_count (i + 1) w'
      = write_pages handle cs
       (map (\<lambda>j. (address + of_nat (j * PAGE_SIZE), drop (j * PAGE_SIZE) data,
                   if j = page_count - 1 then len mod of_nat PAGE_SIZE else of_nat PAGE_SIZE))
          [i + 1..<page_count]) w'" for w'
    by (rule Suc(1) [OF n])
  from lt have u: "[i..<page_count] = i # [i + 1..<page_count]"
    by (simp add: upt_conv_Cons)
  show ?case
    unfolding loop_step [OF lt] IH u list.map write_pages.simps by (rule refl)
qed

lemma aligned_is_write_pages:
  "cat25256_write_address_aligned handle address data len cs w
     = write_pages handle cs (aligned_requests address data len) w"
  unfolding cat25256_write_address_aligned_def aligned_requests_def Let_def
  by (rule loop_is_write_pages)

lemma write_is_write_pages:
  "cat25256_write handle address data len cs w
     = write_pages handle cs (page_requests address data len) w"
proof -
  consider (small) "len \<le> of_nat PAGE_SIZE"
    | (aligned) "\<not> len \<le> of_nat PAGE_SIZE" "address mod of_nat PAGE_SIZE = 0"
    | (unaligned) "\<not> len \<le> of_nat PAGE_SIZE" "address mod of_nat PAGE_SIZE \<noteq> 0"
    by blast
  then show ?thesis
  proof cases
    case small
    have "write_pages handle cs [(address, data, len)] w
        = cat25256_write_page handle address data len cs w"
      unfolding write_pages.simps by (rule and_then_returns_same)
    with small show ?thesis
      by (simp add: cat25256_write_def page_requests_def)
  next
    case aligned
    then show ?thesis
      by (simp add: cat25256_write_def page_requests_def aligned_is_write_pages)
  next
    case unaligned
    have "cat25256_write_address_unaligned handle address data len cs w
        = write_pages handle cs (page_requests address data len) w"
      using unaligned
      unfolding cat25256_write_address_unaligned_def page_requests_def Let_def
      by (simp only: if_False write_pages.simps)
        (rule and_then_cong_ext, auto simp: aligned_is_write_pages)
    with unaligned show ?thesis by (simp add: cat25256_write_def)
  qed
qed

lemma write_pages_append:
  assumes "write_pages handle cs pre w = ret (MEMORY_STATUS_OK, wk)"
  shows "write_pages handle cs (pre @ ps) w = write_pages handle cs ps wk"
  using assms
proof (induction pre arbitrary: w)
  case Nil
  then show ?case by simp
next
  case (Cons p pre)
  obtain a d l where p: "p = (a, d, l)" by (cases p)
  from Cons.prems have run: "and_then (cat25256_write_page handle a d l cs w) (\<lambda>(rc, w').
       if rc \<noteq> MEMORY_STATUS_OK then ret (rc, w')
       else write_pages handle cs pre w') = ret (MEMORY_STATUS_OK, wk)"
    by (simp add: p)
  have "write_pages handle cs ((a, d, l) # pre @ ps) w = write_pages handle cs ps wk"
  proof (cases "cat25256_write_page handle a d l cs w")
    case None
    with run show ?thesis by (simp add: ret_def)
  next
    case (Some r)
    from write_page_returns [OF Some] obtain rc1 w1 where r: "r = Inr (rc1, w1)" by blast
    show ?thesis
    proof (cases "rc1 = MEMORY_STATUS_OK")
      case False
      with run Some r show ?thesis by (simp add: ret_def)
    next
      case True
      with run Some r have "write_pages handle cs pre w1 = ret (MEMORY_STATUS_OK, wk)"
        by (simp add: ret_def)
      from Cons.IH [OF this] Some r True show ?thesis by simp
    qed
  qed
  with p show ?case by simp
qed

lemma write_pages_failure:
  assumes "write_pages handle cs pre w = ret (MEMORY_STATUS_OK, wk)"
    and "cat25256_write_page handle a d l cs wk = ret (rc, w')"
    and "rc \<noteq> MEMORY_STATUS_OK"
  shows "write_pages handle cs (pre @ (a, d, l) # post) w = ret (rc, w')"
  using assms(2,3) by (simp add: write_pages_append [OF assms(1)])

lemma aligned_requests_not_empty:
  assumes "len \<noteq> 0"
  shows "aligned_requests address data len \<noteq> []"
  using page_count_pos [OF assms] by (simp add: aligned_requests_def Let_def)

lemma page_requests_not_empty: "page_requests address data len \<noteq> []"
proof (cases "len \<le> of_nat PAGE_SIZE")
  case True
  then show ?thesis by (simp add: page_requests_def)
next
  case False
  then have "len \<noteq> 0" by auto
  from aligned_requests_not_empty [OF this] False show ?thesis
    by (simp add: page_requests_def Let_def)
qed

text \<open>
  C6.  \<^verbatim>\<open>cat25256_write\<close> is the run of its page writes one after the other, as
  \<open>write_pages\<close> defines it: a page write is attempted only once every earlier one has
  returned \<^verbatim>\<open>MEMORY_STATUS_OK\<close>, and the first page write that returns another status
  ends the run with that status.  The equation holds for every run, also one that never
  returns, and there is always at least one page write.  So whenever the page writes
  before some page write succeed and that page write returns a status \<open>rc\<close> other than
  \<^verbatim>\<open>MEMORY_STATUS_OK\<close>, \<^verbatim>\<open>cat25256_write\<close> returns \<open>rc\<close>, in the very world the failing page
  write left: nothing is issued after it, and nothing written before it is rolled back.
  And whenever \<^verbatim>\<open>cat25256_write\<close> returns, every page write it recorded but the last one
  returned \<^verbatim>\<open>MEMORY_STATUS_OK\<close>, and the status of the last one is the status returned.
\<close>

theorem write_stops_at_first_failing_page:
  "cat25256_write handle address data len cs w
     = write_pages handle cs (page_requests address data len) w
   \<and> page_requests address data len \<noteq> []
   \<and> (\<forall>pre a d l post wk rc w'.
         page_requests address data len = pre @ (a, d, l) # post
         \<and> write_pages handle cs pre w = ret (MEMORY_STATUS_OK, wk)
         \<and> cat25256_write_page handle a d l cs wk = ret (rc, w')
         \<and> rc \<noteq> MEMORY_STATUS_OK
         \<longrightarrow> cat25256_write handle address data len cs w = ret (rc, w'))
   \<and> (\<forall>r. cat25256_write handle address data len cs w = Some r \<longrightarrow>
         (\<exists>rc w' es. r = Inr (rc, w') \<and> pages w' = pages w @ es \<and> es \<noteq> []
            \<and> stops_at_first_failure rc es))"
proof -
  have eq: "cat25256_write handle address data len cs w
     = write_pages handle cs (page_requests address data len) w"
    by (rule write_is_write_pages)
  have failure: "cat25256_write handle address data len cs w = ret (rc, w')"
    if "page_requests address data len = pre @ (a, d, l) # post"
      and "write_pages handle cs pre w = ret (MEMORY_STATUS_OK, wk)"
      and "cat25256_write_page handle a d l cs wk = ret (rc, w')"
      and "rc \<noteq> MEMORY_STATUS_OK"
    for pre a d l post wk rc w'
    unfolding eq that(1) by (rule write_pages_failure [OF that(2,3,4)])
  from eq page_requests_not_empty [of address data len] failure
    write_returned_stops [of handle address data len cs w]
  show ?thesis by blast
qed

theorem write_stops_at_first_failing_page_witness:
  "page_requests 0 (replicate 130 0) 130
     = [(0, replicate 130 0, 64)] @ (64, replicate 66 0, 64) # [(128, replicate 2 0, 2)]
   \<and> write_pages (Some (scripted MEMORY_STATUS_OK)) 0 [(0, replicate 130 0, 64)]
       (world0 ([MEMORY_STATUS_OK, MEMORY_STATUS_OK, MEMORY_STATUS_OK, MEMORY_STATUS_OK,
                 MEMORY_STATUS_OK, MEMORY_STATUS_OK, MEMORY_STATUS_OK, MEMORY_STATUS_OK,
                 MEMORY_STATUS_NOK], []))
     = ret (MEMORY_STATUS_OK,
         \<lparr>dev = ([MEMORY_STATUS_OK, MEMORY_STATUS_OK, MEMORY_STATUS_NOK], []),
          bus = [CsEnable 0, BusWrite [1, 1], CsDisable 0,
                 CsEnable 0, BusWrite [6], CsDisable 0,
                 CsEnable 0, BusWrite [2, 0, 0], BusWrite (replicate 64 0), CsDisable 0,
                 CsEnable 0, BusWrite [4], CsDisable 0,
                 CsEnable 0, BusWrite [5], BusRead 1, CsDisable 0],
          pages = [(0, 64, MEMORY_STATUS_OK)]\<rparr>)
   \<and> cat25256_write_page (Some (scripted MEMORY_STATUS_OK)) 64 (replicate 66 0) 64 0
         \<lparr>dev = ([MEMORY_STATUS_OK, MEMORY_STATUS_OK, MEMORY_STATUS_NOK], []),
          bus = [CsEnable 0, BusWrite [1, 1], CsDisable 0,
                 CsEnable 0, BusWrite [6], CsDisable 0,
                 CsEnable 0, BusWrite [2, 0, 0], BusWrite (replicate 64 0), CsDisable 0,
                 CsEnable 0, BusWrite [4], CsDisable 0,
                 CsEnable 0, BusWrite [5], BusRead 1, CsDisable 0],
          pages = [(0, 64, MEMORY_STATUS_OK)]\<rparr>
     = ret (MEMORY_STATUS_NOK,
         \<lparr>dev = ([], []),
          bus = [CsEnable 0, BusWrite [1, 1], CsDisable 0,
                 CsEnable 0, BusWrite [6], CsDisable 0,
                 CsEnable 0, BusWrite [2, 0, 0], BusWrite (replicate 64 0), CsDisable 0,
                 CsEnable 0, BusWrite [4], CsDisable 0,
                 CsEnable 0, BusWrite [5], BusRead 1, CsDisable 0,
                 CsEnable 0, BusWrite [1, 1], CsDisable 0,
                 CsEnable 0, BusWrite [6], CsDisable 0,
                 CsEnable 0, BusWrite [2, 0, 64], CsDisable 0,
                 CsEnable 0, BusWrite [4], CsDisable 0],
          pages = [(0, 64, MEMORY_STATUS_OK), (64, 64, MEMORY_STATUS_NOK)]\<rparr>)
   \<and> MEMORY_STATUS_NOK \<noteq> MEMORY_STATUS_OK
   \<and> cat25256_write (Some (scripted MEMORY_STATUS_OK)) 0 (replicate 130 0) 130 0
       (world0 ([MEMORY_STATUS_OK, MEMORY_STATUS_OK, MEMORY_STATUS_OK, MEMORY_STATUS_OK,
                 MEMORY_STATUS_OK, MEMORY_STATUS_OK, MEMORY_STATUS_OK, MEMORY_STATUS_OK,
                 MEMORY_STATUS_NOK], []))
     = ret (MEMORY_STATUS_NOK,
         \<lparr>dev = ([], []),
          bus = [CsEnable 0, BusWrite [1, 1], CsDisable 0,
                 CsEnable 0, BusWrite [6], CsDisable 0,
                 CsEnable 0, BusWrite [2, 0, 0], BusWrite (replicate 64 0), CsDisable 0,
                 CsEnable 0, BusWrite [4], CsDisable 0,
                 CsEnable 0, BusWrite [5], BusRead 1, CsDisable 0,
                 CsEnable 0, BusWrite [1, 1], CsDisable 0,
                 CsEnable 0, BusWrite [6], CsDisable 0,
                 CsEnable 0, BusWrite [2, 0, 64], CsDisable 0,
                 CsEnable 0, BusWrite [4], CsDisable 0],
          pages = [(0, 64, MEMORY_STATUS_OK), (64, 64, MEMORY_STATUS_NOK)]\<rparr>)"
proof -
  let ?h = "Some (scripted MEMORY_STATUS_OK)"
  let ?w = "world0 ([MEMORY_STATUS_OK, MEMORY_STATUS_OK, MEMORY_STATUS_OK, MEMORY_STATUS_OK,
                 MEMORY_STATUS_OK, MEMORY_STATUS_OK, MEMORY_STATUS_OK, MEMORY_STATUS_OK,
                 MEMORY_STATUS_NOK], []) :: script world"
  let ?w1 = "\<lparr>dev = ([MEMORY_STATUS_OK, MEMORY_STATUS_OK, MEMORY_STATUS_NOK], []),
          bus = [CsEnable 0, BusWrite [1, 1], CsDisable 0,
                 CsEnable 0, BusWrite [6], CsDisable 0,
                 CsEnable 0, BusWrite [2, 0, 0], BusWrite (replicate 64 0), CsDisable 0,
                 CsEnable 0, BusWrite [4], CsDisable 0,
                 CsEnable 0, BusWrite [5], BusRead 1, CsDisable 0],
          pages = [(0, 64, MEMORY_STATUS_OK)]\<rparr> :: script world"
  let ?w2 = "\<lparr>dev = ([], []),
          bus = [CsEnable 0, BusWrite [1, 1], CsDisable 0,
                 CsEnable 0, BusWrite [6], CsDisable 0,
                 CsEnable 0, BusWrite [2, 0, 0], BusWrite (replicate 64 0), CsDisable 0,
                 CsEnable 0, BusWrite [4], CsDisable 0,
                 CsEnable 0, BusWrite [5], BusRead 1, CsDisable 0,
                 CsEnable 0, BusWrite [1, 1], CsDisable 0,
                 CsEnable 0, BusWrite [6], CsDisable 0,
                 CsEnable 0, BusWrite [2, 0, 64], CsDisable 0,
                 CsEnable 0, BusWrite [4], CsDisable 0],
          pages = [(0, 64, MEMORY_STATUS_OK), (64, 64, MEMORY_STATUS_NOK)]\<rparr> :: script world"
  have p: "page_requests 0 (replicate 130 0) 130
     = [(0, replicate 130 0, 64)] @ (64, replicate 66 0, 64) # [(128, replicate 2 0, 2)]"
    by code_simp
  have s1: "write_pages ?h 0 [(0, replicate 130 0, 64)] ?w = ret (MEMORY_STATUS_OK, ?w1)"
    by code_simp
  have s2: "cat25256_write_page ?h 64 (replicate 66 0) 64 0 ?w1 = ret (MEMORY_STATUS_NOK, ?w2)"
    by code_simp
  have ne: "MEMORY_STATUS_NOK \<noteq> MEMORY_STATUS_OK" by simp
  from write_stops_at_first_failing_page [of ?h 0 "replicate 130 0" 130 0 ?w] p s1 s2 ne
  have "cat25256_write ?h 0 (replicate 130 0) 130 0 ?w = ret (MEMORY_STATUS_NOK, ?w2)"
    by blast
  with p s1 s2 ne show ?thesis by (intro conjI)
qed

section \<open>Handle validation\<close>

lemma loop_invalid:
  assumes "cat25256_check_handle handle \<noteq> MEMORY_STATUS_OK" "i < page_count"
  shows "\<exists>w'. cat25256_write_address_aligned_loop handle address data len cs page_count i w
               = ret (MEMORY_STATUS_INVALID_HANDLE, w')
           \<and> dev w' = dev w \<and> bus w' = bus w"
  by (simp add: loop_step [OF assms(2)] write_page_invalid [OF assms(1)])

lemma aligned_invalid:
  assumes "cat25256_check_handle handle \<noteq> MEMORY_STATUS_OK" "len \<noteq> 0"
  shows "\<exists>w'. cat25256_write_address_aligned handle address data len cs w
               = ret (MEMORY_STATUS_INVALID_HANDLE, w')
           \<and> dev w' = dev w \<and> bus w' = bus w"
  unfolding cat25256_write_address_aligned_def Let_def
  by (rule loop_invalid [OF assms(1) page_count_pos [OF assms(2)]])

lemma unaligned_invalid:
  assumes "cat25256_check_handle handle \<noteq> MEMORY_STATUS_OK"
  shows "\<exists>w'. cat25256_write_address_unaligned handle address data len cs w
               = ret (MEMORY_STATUS_INVALID_HANDLE, w')
           \<and> dev w' = dev w \<and> bus w' = bus w"
  by (simp add: cat25256_write_address_unaligned_def Let_def write_page_invalid [OF assms])

lemma write_invalid:
  assumes "cat25256_check_handle handle \<noteq> MEMORY_STATUS_OK"
  shows "\<exists>w'. cat25256_write handle address data len cs w
               = ret (MEMORY_STATUS_INVALID_HANDLE, w')
           \<and> dev w' = dev w \<and> bus w' = bus w"
proof -
  consider (small) "len \<le> of_nat PAGE_SIZE"
    | (aligned) "\<not> len \<le> of_nat PAGE_SIZE" "address mod of_nat PAGE_SIZE = 0"
    | (unaligned) "\<not> len \<le> of_nat PAGE_SIZE" "address mod of_nat PAGE_SIZE \<noteq> 0"
    by blast
  then show ?thesis
  proof cases
    case small
    then show ?thesis by (simp add: cat25256_write_def write_page_invalid [OF assms])
  next
    case aligned
    from aligned(1) have "len \<noteq> 0" by auto
    from aligned_invalid [OF assms this] aligned show ?thesis
      by (simp add: cat25256_write_def)
  next
    case unaligned
    with unaligned_invalid [OF assms] show ?thesis
      by (simp add: cat25256_write_def)
  qed
qed

lemma missing_capability_invalid:
  assumes "handle = None \<or> (\<exists>h. handle = Some h \<and>
             (read h = None \<or> write' h = None \<or> cs_enable h = None \<or> cs_disable h = None))"
  shows "cat25256_check_handle handle = MEMORY_STATUS_INVALID_HANDLE"
  using assms by (auto simp: cat25256_check_handle_def Option.is_none_def)

text \<open>
  C4.  If the handle is \<^verbatim>\<open>NULL\<close> or any one of its four capabilities is absent, each of
  the five public operations returns \<^verbatim>\<open>MEMORY_STATUS_INVALID_HANDLE\<close> and calls no
  capability: the read buffer, the register byte, the device and the bus trace are as
  before the call.  (The only change is the record of the rejected page write in \<open>pages\<close>.)
\<close>

theorem invalid_handle_is_rejected_without_bus_activity:
  assumes "handle = None \<or> (\<exists>h. handle = Some h \<and>
             (read h = None \<or> write' h = None \<or> cs_enable h = None \<or> cs_disable h = None))"
  shows "cat25256_read handle address data len cs w
           = ret (MEMORY_STATUS_INVALID_HANDLE, data, w)
       \<and> cat25256_read_register handle b cs w = ret (MEMORY_STATUS_INVALID_HANDLE, b, w)
       \<and> cat25256_write_register handle b cs w = ret (MEMORY_STATUS_INVALID_HANDLE, w)
       \<and> cat25256_write_page handle address data len cs w
           = ret (MEMORY_STATUS_INVALID_HANDLE,
                  w\<lparr>pages := pages w @ [(address, len, MEMORY_STATUS_INVALID_HANDLE)]\<rparr>)
       \<and> (\<exists>w'. cat25256_write handle address data len cs w
                  = ret (MEMORY_STATUS_INVALID_HANDLE, w')
              \<and> dev w' = dev w \<and> bus w' = bus w)"
proof -
  have inv: "cat25256_check_handle handle = MEMORY_STATUS_INVALID_HANDLE"
    by (rule missing_capability_invalid [OF assms])
  then have nok: "cat25256_check_handle handle \<noteq> MEMORY_STATUS_OK" by simp
  have "cat25256_read handle address data len cs w
           = ret (MEMORY_STATUS_INVALID_HANDLE, data, w)"
    by (simp add: cat25256_read_def inv)
  moreover have "cat25256_read_register handle b cs w = ret (MEMORY_STATUS_INVALID_HANDLE, b, w)"
    by (simp add: cat25256_read_register_def inv)
  moreover have "cat25256_write_register handle b cs w = ret (MEMORY_STATUS_INVALID_HANDLE, w)"
    by (simp add: cat25256_write_register_def inv)
  moreover note write_page_invalid [OF nok, of address data len cs w]
    write_invalid [OF nok, of address data len cs w]
  ultimately show ?thesis by blast
qed

theorem invalid_handle_is_rejected_without_bus_activity_witness:
  "(Some ((scripted MEMORY_STATUS_OK)\<lparr>cs_disable := None\<rparr>) = None
     \<or> (\<exists>h. Some ((scripted MEMORY_STATUS_OK)\<lparr>cs_disable := None\<rparr>) = Some h \<and>
             (read h = None \<or> write' h = None \<or> cs_enable h = None \<or> cs_disable h = None)))
   \<and> cat25256_read (Some ((scripted MEMORY_STATUS_OK)\<lparr>cs_disable := None\<rparr>)) 0 [1, 2] 2 0
         (world0 ([], []))
       = ret (MEMORY_STATUS_INVALID_HANDLE, [1, 2], world0 ([], []))
   \<and> bus_of (cat25256_write (Some ((scripted MEMORY_STATUS_OK)\<lparr>cs_disable := None\<rparr>)) 0
         (replicate 130 0) 130 0 (world0 ([], [])))
       = Some (Inr (MEMORY_STATUS_INVALID_HANDLE, []))"
proof -
  let ?h = "(scripted MEMORY_STATUS_OK)\<lparr>cs_disable := None\<rparr>"
  have h: "Some ?h = None
     \<or> (\<exists>h. Some ?h = Some h \<and>
             (read h = None \<or> write' h = None \<or> cs_enable h = None \<or> cs_disable h = None))"
    by simp
  from invalid_handle_is_rejected_without_bus_activity [OF h, of 0 "[1, 2]" 2 0 "world0 ([], [])"]
    invalid_handle_is_rejected_without_bus_activity [OF h, of 0 "replicate 130 0" 130 0 "world0 ([], [])"]
  have "cat25256_read (Some ?h) 0 [1, 2] 2 0 (world0 ([], []))
       = ret (MEMORY_STATUS_INVALID_HANDLE, [1, 2], world0 ([], []))"
    and "bus_of (cat25256_write (Some ?h) 0 (replicate 130 0) 130 0 (world0 ([], [])))
       = Some (Inr (MEMORY_STATUS_INVALID_HANDLE, []))"
    by (auto simp: bus_of_def ret_def world0_def)
  with h show ?thesis by blast
qed

section \<open>Transaction primitives and the page write protocol\<close>

lemma write_latch_bus:
  assumes "cat25256_check_handle handle = MEMORY_STATUS_OK"
  shows "\<exists>rc w'. cat25256_atomic_write_latch handle b cs w = ret (rc, w')
           \<and> bus w' = bus w @ [CsEnable cs, BusWrite [b], CsDisable cs]
           \<and> pages w' = pages w"
  using assms
  by (auto simp: check_handle_OK_iff cat25256_atomic_write_latch_def call_valid)

lemma write_register_OK_valid:
  assumes "cat25256_write_register handle b cs w = ret (MEMORY_STATUS_OK, w1)"
  shows "cat25256_check_handle handle = MEMORY_STATUS_OK"
proof (rule ccontr)
  assume "cat25256_check_handle handle \<noteq> MEMORY_STATUS_OK"
  with assms check_handle_cases [of handle] show False
    by (auto simp: cat25256_write_register_def Let_def)
qed



text \<open>
  C5.  In \<^verbatim>\<open>cat25256_write_page\<close>, when the status register write and
  the latch enable succeeded and the write transaction returns a status other than
  \<^verbatim>\<open>MEMORY_STATUS_OK\<close> (its header or its payload was not sent), the write-latch disable
  runs on the world the write transaction left, and the page write returns
  \<^verbatim>\<open>MEMORY_STATUS_NOK\<close> in the world the latch disable left.  The bus trace therefore ends
  with the chip-select scope that sends \<^verbatim>\<open>WRDI\<close>: no status register read follows the
  failed transaction.
\<close>

theorem write_page_failed_transaction_disables_latch:
  assumes "cat25256_write_register handle NREADY cs w = ret (MEMORY_STATUS_OK, w1)"
    and "cat25256_atomic_write_latch_enable handle cs w1 = ret (MEMORY_STATUS_OK, w2)"
    and "cat25256_atomic_write handle address data len cs w2 = ret (rc3, w3)"
    and "rc3 \<noteq> MEMORY_STATUS_OK"
  shows "\<exists>rc4 w4. cat25256_atomic_write_latch_disable handle cs w3 = ret (rc4, w4)
           \<and> bus w4 = bus w3 @ [CsEnable cs, BusWrite [WRDI], CsDisable cs]
           \<and> cat25256_write_page handle address data len cs w
               = ret (MEMORY_STATUS_NOK,
                      w4\<lparr>pages := pages w4 @ [(address, len, MEMORY_STATUS_NOK)]\<rparr>)"
proof -
  have valid: "cat25256_check_handle handle = MEMORY_STATUS_OK"
    by (rule write_register_OK_valid [OF assms(1)])
  from write_latch_bus [OF valid, of WRDI cs w3]
  obtain rc4 w4 where s4: "cat25256_atomic_write_latch_disable handle cs w3 = ret (rc4, w4)"
      and b4: "bus w4 = bus w3 @ [CsEnable cs, BusWrite [WRDI], CsDisable cs]"
    unfolding cat25256_atomic_write_latch_disable_def Let_def by blast
  from valid assms s4 have "cat25256_write_page handle address data len cs w
               = ret (MEMORY_STATUS_NOK,
                      w4\<lparr>pages := pages w4 @ [(address, len, MEMORY_STATUS_NOK)]\<rparr>)"
    by (simp add: cat25256_write_page_def page_returned_def Let_def)
  with s4 b4 show ?thesis by blast
qed

theorem write_page_failed_transaction_disables_latch_witness:
  "cat25256_write_register (Some (scripted MEMORY_STATUS_OK)) NREADY 0
       (world0 ([MEMORY_STATUS_OK, MEMORY_STATUS_OK, MEMORY_STATUS_OK, MEMORY_STATUS_NOK], []))
     = ret (MEMORY_STATUS_OK,
         \<lparr>dev = ([MEMORY_STATUS_OK, MEMORY_STATUS_OK, MEMORY_STATUS_NOK], []),
          bus = [CsEnable 0, BusWrite [1, 1], CsDisable 0], pages = []\<rparr>)
   \<and> cat25256_atomic_write_latch_enable (Some (scripted MEMORY_STATUS_OK)) 0
       \<lparr>dev = ([MEMORY_STATUS_OK, MEMORY_STATUS_OK, MEMORY_STATUS_NOK], []),
        bus = [CsEnable 0, BusWrite [1, 1], CsDisable 0], pages = []\<rparr>
     = ret (MEMORY_STATUS_OK,
         \<lparr>dev = ([MEMORY_STATUS_OK, MEMORY_STATUS_NOK], []),
          bus = [CsEnable 0, BusWrite [1, 1], CsDisable 0,
                 CsEnable 0, BusWrite [6], CsDisable 0], pages = []\<rparr>)
   \<and> cat25256_atomic_write (Some (scripted MEMORY_STATUS_OK)) 64 [0xAA, 0xBB] 2 0
       \<lparr>dev = ([MEMORY_STATUS_OK, MEMORY_STATUS_NOK], []),
        bus = [CsEnable 0, BusWrite [1, 1], CsDisable 0,
               CsEnable 0, BusWrite [6], CsDisable 0], pages = []\<rparr>
     = ret (MEMORY_STATUS_NOK,
         \<lparr>dev = ([], []),
          bus = [CsEnable 0, BusWrite [1, 1], CsDisable 0,
                 CsEnable 0, BusWrite [6], CsDisable 0,
                 CsEnable 0, BusWrite [2, 0, 64], BusWrite [0xAA, 0xBB], CsDisable 0],
          pages = []\<rparr>)
   \<and> MEMORY_STATUS_NOK \<noteq> MEMORY_STATUS_OK
   \<and> bus_of (cat25256_write_page (Some (scripted MEMORY_STATUS_OK)) 64 [0xAA, 0xBB] 2 0
         (world0 ([MEMORY_STATUS_OK, MEMORY_STATUS_OK, MEMORY_STATUS_OK, MEMORY_STATUS_NOK], [])))
     = Some (Inr (MEMORY_STATUS_NOK,
         [CsEnable 0, BusWrite [1, 1], CsDisable 0,
          CsEnable 0, BusWrite [6], CsDisable 0,
          CsEnable 0, BusWrite [2, 0, 64], BusWrite [0xAA, 0xBB], CsDisable 0,
          CsEnable 0, BusWrite [4], CsDisable 0]))"
proof -
  let ?h = "Some (scripted MEMORY_STATUS_OK)"
  let ?w = "world0 ([MEMORY_STATUS_OK, MEMORY_STATUS_OK, MEMORY_STATUS_OK, MEMORY_STATUS_NOK], [])
              :: script world"
  let ?w1 = "\<lparr>dev = ([MEMORY_STATUS_OK, MEMORY_STATUS_OK, MEMORY_STATUS_NOK], []),
          bus = [CsEnable 0, BusWrite [1, 1], CsDisable 0], pages = []\<rparr> :: script world"
  let ?w2 = "\<lparr>dev = ([MEMORY_STATUS_OK, MEMORY_STATUS_NOK], []),
          bus = [CsEnable 0, BusWrite [1, 1], CsDisable 0,
                 CsEnable 0, BusWrite [6], CsDisable 0], pages = []\<rparr> :: script world"
  let ?w3 = "\<lparr>dev = ([], []),
          bus = [CsEnable 0, BusWrite [1, 1], CsDisable 0,
                 CsEnable 0, BusWrite [6], CsDisable 0,
                 CsEnable 0, BusWrite [2, 0, 64], BusWrite [0xAA, 0xBB], CsDisable 0],
          pages = []\<rparr> :: script world"
  have s1: "cat25256_write_register ?h NREADY 0 ?w = ret (MEMORY_STATUS_OK, ?w1)"
    by code_simp
  have s2: "cat25256_atomic_write_latch_enable ?h 0 ?w1 = ret (MEMORY_STATUS_OK, ?w2)"
    by code_simp
  have s3: "cat25256_atomic_write ?h 64 [0xAA, 0xBB] 2 0 ?w2 = ret (MEMORY_STATUS_NOK, ?w3)"
    by code_simp
  have ne: "MEMORY_STATUS_NOK \<noteq> MEMORY_STATUS_OK" by simp
  from write_page_failed_transaction_disables_latch [OF s1 s2 s3 ne]
  have "bus_of (cat25256_write_page ?h 64 [0xAA, 0xBB] 2 0 ?w)
     = Some (Inr (MEMORY_STATUS_NOK, bus ?w3 @ [CsEnable 0, BusWrite [4], CsDisable 0]))"
    by (auto simp: bus_of_def ret_def WRDI_def)
  with s1 s2 s3 ne show ?thesis by simp
qed

text \<open>
  C8.  In \<^verbatim>\<open>cat25256_write_page\<close>, when the status register write, the latch enable and
  the write transaction succeeded, the status \<open>rc4\<close> that the write-latch disable returns
  has no part in the result: the page write continues with the busy-wait in the world the
  latch disable left, and returns \<^verbatim>\<open>MEMORY_STATUS_OK\<close> if the busy-wait does and
  \<^verbatim>\<open>MEMORY_STATUS_NOK\<close> otherwise.  In the witness the latch disable fails and the page
  write returns \<^verbatim>\<open>MEMORY_STATUS_OK\<close>.
\<close>

theorem write_page_ignores_latch_disable_status:
  assumes "cat25256_write_register handle NREADY cs w = ret (MEMORY_STATUS_OK, w1)"
    and "cat25256_atomic_write_latch_enable handle cs w1 = ret (MEMORY_STATUS_OK, w2)"
    and "cat25256_atomic_write handle address data len cs w2 = ret (MEMORY_STATUS_OK, w3)"
    and "cat25256_atomic_write_latch_disable handle cs w3 = ret (rc4, w4)"
  shows "cat25256_write_page handle address data len cs w =
           (case cat25256_atomic_wait_wip_completed handle cs w4 of
              None \<Rightarrow> None
            | Some (Inl e) \<Rightarrow> Some (Inl e)
            | Some (Inr (rc5, w5)) \<Rightarrow>
                if rc5 \<noteq> MEMORY_STATUS_OK then
                  ret (MEMORY_STATUS_NOK,
                       w5\<lparr>pages := pages w5 @ [(address, len, MEMORY_STATUS_NOK)]\<rparr>)
                else
                  ret (MEMORY_STATUS_OK,
                       w5\<lparr>pages := pages w5 @ [(address, len, MEMORY_STATUS_OK)]\<rparr>))"
proof -
  have valid: "cat25256_check_handle handle = MEMORY_STATUS_OK"
    by (rule write_register_OK_valid [OF assms(1)])
  with assms show ?thesis
    by (simp add: cat25256_write_page_def page_returned_def Let_def and_then_def ret_def
        split: option.splits sum.splits)
qed

theorem write_page_ignores_latch_disable_status_witness:
  "cat25256_atomic_write_latch_disable (Some (scripted MEMORY_STATUS_OK)) 0
       \<lparr>dev = ([MEMORY_STATUS_NOK], []),
        bus = [CsEnable 0, BusWrite [1, 1], CsDisable 0,
               CsEnable 0, BusWrite [6], CsDisable 0,
               CsEnable 0, BusWrite [2, 0, 64], BusWrite [0xAA, 0xBB], CsDisable 0],
        pages = []\<rparr>
     = ret (MEMORY_STATUS_NOK,
         \<lparr>dev = ([], []),
          bus = [CsEnable 0, BusWrite [1, 1], CsDisable 0,
                 CsEnable 0, BusWrite [6], CsDisable 0,
                 CsEnable 0, BusWrite [2, 0, 64], BusWrite [0xAA, 0xBB], CsDisable 0,
                 CsEnable 0, BusWrite [4], CsDisable 0],
          pages = []\<rparr>)
   \<and> pages_of (cat25256_write_page (Some (scripted MEMORY_STATUS_OK)) 64 [0xAA, 0xBB] 2 0
         (world0 ([MEMORY_STATUS_OK, MEMORY_STATUS_OK, MEMORY_STATUS_OK, MEMORY_STATUS_OK,
                   MEMORY_STATUS_NOK], [])))
     = Some (Inr (MEMORY_STATUS_OK, [(64, 2, MEMORY_STATUS_OK)]))"
proof -
  let ?h = "Some (scripted MEMORY_STATUS_OK)"
  let ?w = "world0 ([MEMORY_STATUS_OK, MEMORY_STATUS_OK, MEMORY_STATUS_OK, MEMORY_STATUS_OK,
                     MEMORY_STATUS_NOK], []) :: script world"
  let ?w1 = "\<lparr>dev = ([MEMORY_STATUS_OK, MEMORY_STATUS_OK, MEMORY_STATUS_OK, MEMORY_STATUS_NOK], []),
          bus = [CsEnable 0, BusWrite [1, 1], CsDisable 0], pages = []\<rparr> :: script world"
  let ?w2 = "\<lparr>dev = ([MEMORY_STATUS_OK, MEMORY_STATUS_OK, MEMORY_STATUS_NOK], []),
          bus = [CsEnable 0, BusWrite [1, 1], CsDisable 0,
                 CsEnable 0, BusWrite [6], CsDisable 0], pages = []\<rparr> :: script world"
  let ?w3 = "\<lparr>dev = ([MEMORY_STATUS_NOK], []),
          bus = [CsEnable 0, BusWrite [1, 1], CsDisable 0,
                 CsEnable 0, BusWrite [6], CsDisable 0,
                 CsEnable 0, BusWrite [2, 0, 64], BusWrite [0xAA, 0xBB], CsDisable 0],
          pages = []\<rparr> :: script world"
  let ?w4 = "\<lparr>dev = ([], []),
          bus = [CsEnable 0, BusWrite [1, 1], CsDisable 0,
                 CsEnable 0, BusWrite [6], CsDisable 0,
                 CsEnable 0, BusWrite [2, 0, 64], BusWrite [0xAA, 0xBB], CsDisable 0,
                 CsEnable 0, BusWrite [4], CsDisable 0],
          pages = []\<rparr> :: script world"
  have s1: "cat25256_write_register ?h NREADY 0 ?w = ret (MEMORY_STATUS_OK, ?w1)"
    by code_simp
  have s2: "cat25256_atomic_write_latch_enable ?h 0 ?w1 = ret (MEMORY_STATUS_OK, ?w2)"
    by code_simp
  have s3: "cat25256_atomic_write ?h 64 [0xAA, 0xBB] 2 0 ?w2 = ret (MEMORY_STATUS_OK, ?w3)"
    by code_simp
  have s4: "cat25256_atomic_write_latch_disable ?h 0 ?w3 = ret (MEMORY_STATUS_NOK, ?w4)"
    by code_simp
  have s5: "pages_of (cat25256_atomic_wait_wip_completed ?h 0 ?w4)
              = Some (Inr (MEMORY_STATUS_OK, []))"
    by code_simp
  from pages_of_SomeD [OF s5] obtain w5 where
    "cat25256_atomic_wait_wip_completed ?h 0 ?w4 = Some (Inr (MEMORY_STATUS_OK, w5))"
    "pages w5 = []"
    by blast
  with write_page_ignores_latch_disable_status [OF s1 s2 s3 s4]
  have "pages_of (cat25256_write_page ?h 64 [0xAA, 0xBB] 2 0 ?w)
     = Some (Inr (MEMORY_STATUS_OK, [(64, 2, MEMORY_STATUS_OK)]))"
    by (simp add: pages_of_def ret_def)
  with s4 show ?thesis by simp
qed

section \<open>The busy-wait\<close>

lemma cat25256_atomic_wait_wip_loop_busy:
  "wip AND NREADY \<noteq> 0 \<Longrightarrow>
   cat25256_atomic_wait_wip_loop handle cs wip w =
     and_then (cat25256_read_register handle wip cs w) (\<lambda>(rc, wip', w').
       if rc \<noteq> MEMORY_STATUS_OK then ret (MEMORY_STATUS_NOK, w')
       else cat25256_atomic_wait_wip_loop handle cs wip' w')"
  by (subst cat25256_atomic_wait_wip_loop.simps)
    (simp add: and_then_def ret_def split: option.splits sum.splits)

lemma cat25256_atomic_wait_wip_loop_ready:
  "wip AND NREADY = 0 \<Longrightarrow> cat25256_atomic_wait_wip_loop handle cs wip w = ret (MEMORY_STATUS_OK, w)"
  by (subst cat25256_atomic_wait_wip_loop.simps) (simp add: ret_def)

lemma cat25256_atomic_wait_wip_loop_last_read:
  assumes "cat25256_atomic_wait_wip_loop handle cs wip w = Some r"
  shows "if wip AND NREADY \<noteq> 0 then
           (\<exists>rc w' wip0 w0 rc0 b. r = Inr (rc, w')
              \<and> cat25256_read_register handle wip0 cs w0 = ret (rc0, b, w')
              \<and> (if rc0 \<noteq> MEMORY_STATUS_OK then rc = MEMORY_STATUS_NOK
                  else b AND NREADY = 0 \<and> rc = MEMORY_STATUS_OK))
         else r = Inr (MEMORY_STATUS_OK, w)"
  using assms
proof (induction rule: cat25256_atomic_wait_wip_loop.raw_induct [rotated 1, consumes 1])
  case (1 loop handle cs wip w r)
  show ?case
  proof (cases "wip AND NREADY \<noteq> 0")
    case False
    with 1(2) show ?thesis by simp
  next
    case busy: True
    obtain rc0 b w1 where rr: "cat25256_read_register handle wip cs w = ret (rc0, b, w1)"
      using read_register_returns by blast
    show ?thesis
    proof (cases "rc0 = MEMORY_STATUS_OK")
      case False
      with 1(2) busy rr have "r = Inr (MEMORY_STATUS_NOK, w1)" by (simp add: ret_def)
      with rr False busy show ?thesis by auto
    next
      case True
      with 1(2) busy rr have call: "loop handle cs b w1 = Some r" by (simp add: ret_def)
      show ?thesis
      proof (cases "b AND NREADY \<noteq> 0")
        case True
        with 1(1) [OF call] busy show ?thesis by simp
      next
        case False
        with 1(1) [OF call] have "r = Inr (MEMORY_STATUS_OK, w1)" by simp
        with rr \<open>rc0 = MEMORY_STATUS_OK\<close> False busy show ?thesis by auto
      qed
    qed
  qed
qed

lemma cat25256_atomic_wait_wip_loop_never_returns:
  assumes "cat25256_atomic_wait_wip_loop handle cs wip w = Some r"
    and "\<forall>wip w. \<exists>b w'. cat25256_read_register handle wip cs w = ret (MEMORY_STATUS_OK, b, w')
            \<and> b AND NREADY \<noteq> 0"
    and "wip AND NREADY \<noteq> 0"
  shows False
  using assms
proof (induction rule: cat25256_atomic_wait_wip_loop.raw_induct [rotated 1, consumes 1])
  case (1 loop handle cs wip w r)
  from 1(3) obtain b w' where
    rr: "cat25256_read_register handle wip cs w = ret (MEMORY_STATUS_OK, b, w')"
    and b: "b AND NREADY \<noteq> 0"
    by blast
  with 1(2) 1(4) have "loop handle cs b w' = Some r" by (simp add: ret_def)
  from 1(1) [OF this 1(3) b] show False .
qed

text \<open>
  C9.  The busy-wait first reads the status register.  As long as the byte it holds has
  bit 0 (\<^verbatim>\<open>NREADY\<close>) set, it reads the status register again; a read that does not return
  \<^verbatim>\<open>MEMORY_STATUS_OK\<close> ends it at once with \<^verbatim>\<open>MEMORY_STATUS_NOK\<close>; a byte with bit 0 clear
  ends it with \<^verbatim>\<open>MEMORY_STATUS_OK\<close>.  Whenever it returns, the world it returns is the one
  left by a status register read that either failed (result \<^verbatim>\<open>MEMORY_STATUS_NOK\<close>) or
  delivered a byte with bit 0 clear (result \<^verbatim>\<open>MEMORY_STATUS_OK\<close>).  There is no bound on the
  iterations: on a bus whose status register reads all succeed with bit 0 set, the
  busy-wait never returns.
\<close>

theorem wait_wip_completed_polls_without_bound:
  "cat25256_atomic_wait_wip_completed handle cs w =
     and_then (cat25256_read_register handle NREADY cs w) (\<lambda>(rc, wip, w').
       if rc \<noteq> MEMORY_STATUS_OK then ret (MEMORY_STATUS_NOK, w')
       else cat25256_atomic_wait_wip_loop handle cs wip w')
   \<and> (\<forall>wip w. wip AND NREADY \<noteq> 0 \<longrightarrow>
         cat25256_atomic_wait_wip_loop handle cs wip w =
           and_then (cat25256_read_register handle wip cs w) (\<lambda>(rc, wip', w').
             if rc \<noteq> MEMORY_STATUS_OK then ret (MEMORY_STATUS_NOK, w')
             else cat25256_atomic_wait_wip_loop handle cs wip' w'))
   \<and> (\<forall>wip w. wip AND NREADY = 0 \<longrightarrow>
         cat25256_atomic_wait_wip_loop handle cs wip w = ret (MEMORY_STATUS_OK, w))
   \<and> (\<forall>r. cat25256_atomic_wait_wip_completed handle cs w = Some r \<longrightarrow>
         (\<exists>rc w' wip0 w0 rc0 b. r = Inr (rc, w')
            \<and> cat25256_read_register handle wip0 cs w0 = ret (rc0, b, w')
            \<and> (if rc0 \<noteq> MEMORY_STATUS_OK then rc = MEMORY_STATUS_NOK
                else b AND NREADY = 0 \<and> rc = MEMORY_STATUS_OK)))
   \<and> ((\<forall>wip w. \<exists>b w'. cat25256_read_register handle wip cs w = ret (MEMORY_STATUS_OK, b, w')
            \<and> b AND NREADY \<noteq> 0)
        \<longrightarrow> cat25256_atomic_wait_wip_completed handle cs w = None)"
proof -
  have busy: "NREADY AND NREADY \<noteq> 0" by (simp add: NREADY_def)
  have a: "cat25256_atomic_wait_wip_completed handle cs w =
     and_then (cat25256_read_register handle NREADY cs w) (\<lambda>(rc, wip, w').
       if rc \<noteq> MEMORY_STATUS_OK then ret (MEMORY_STATUS_NOK, w')
       else cat25256_atomic_wait_wip_loop handle cs wip w')"
    unfolding cat25256_atomic_wait_wip_completed_def Let_def
    by (rule cat25256_atomic_wait_wip_loop_busy [OF busy])
  have d: "\<exists>rc w' wip0 w0 rc0 b. r = Inr (rc, w')
            \<and> cat25256_read_register handle wip0 cs w0 = ret (rc0, b, w')
            \<and> (if rc0 \<noteq> MEMORY_STATUS_OK then rc = MEMORY_STATUS_NOK
                else b AND NREADY = 0 \<and> rc = MEMORY_STATUS_OK)"
    if "cat25256_atomic_wait_wip_completed handle cs w = Some r" for r
    using cat25256_atomic_wait_wip_loop_last_read [of handle cs NREADY w r] that busy
    by (simp add: cat25256_atomic_wait_wip_completed_def Let_def)
  have e: "cat25256_atomic_wait_wip_completed handle cs w = None"
    if "\<forall>wip w. \<exists>b w'. cat25256_read_register handle wip cs w = ret (MEMORY_STATUS_OK, b, w')
            \<and> b AND NREADY \<noteq> 0"
  proof (cases "cat25256_atomic_wait_wip_completed handle cs w")
    case None
    then show ?thesis .
  next
    case (Some r)
    then have "cat25256_atomic_wait_wip_loop handle cs NREADY w = Some r"
      by (simp add: cat25256_atomic_wait_wip_completed_def Let_def)
    from cat25256_atomic_wait_wip_loop_never_returns [OF this that busy] show ?thesis ..
  qed
  from a d e cat25256_atomic_wait_wip_loop_busy [of _ handle cs] cat25256_atomic_wait_wip_loop_ready [of _ handle cs]
  show ?thesis by blast
qed

theorem wait_wip_completed_polls_without_bound_witness:
  "(\<forall>wip w. \<exists>b w'. cat25256_read_register (Some always_busy) wip 0 w
                      = ret (MEMORY_STATUS_OK, b, w') \<and> b AND NREADY \<noteq> 0)
   \<and> cat25256_atomic_wait_wip_completed (Some always_busy) 0 (world0 ()) = None
   \<and> bus_of (cat25256_atomic_wait_wip_completed (Some (scripted MEMORY_STATUS_OK)) 0
         (world0 ([], [(MEMORY_STATUS_OK, 1), (MEMORY_STATUS_OK, 3), (MEMORY_STATUS_OK, 2)])))
       = Some (Inr (MEMORY_STATUS_OK,
           [CsEnable 0, BusWrite [5], BusRead 1, CsDisable 0,
            CsEnable 0, BusWrite [5], BusRead 1, CsDisable 0,
            CsEnable 0, BusWrite [5], BusRead 1, CsDisable 0]))
   \<and> bus_of (cat25256_atomic_wait_wip_completed (Some (scripted MEMORY_STATUS_OK)) 0
         (world0 ([], [(MEMORY_STATUS_OK, 1), (MEMORY_STATUS_NOK, 0)])))
       = Some (Inr (MEMORY_STATUS_NOK,
           [CsEnable 0, BusWrite [5], BusRead 1, CsDisable 0,
            CsEnable 0, BusWrite [5], BusRead 1, CsDisable 0]))"
proof -
  have h: "\<forall>wip w. \<exists>b w'. cat25256_read_register (Some always_busy) wip 0 w
                      = ret (MEMORY_STATUS_OK, b, w') \<and> b AND NREADY \<noteq> 0"
    by (simp add: cat25256_read_register_def cat25256_check_handle_def always_busy_def
        Option.is_none_def call_cs_enable_def call_cs_disable_def call_write_def call_read_def
        Let_def NREADY_def)
  from wait_wip_completed_polls_without_bound [of "Some always_busy" 0 "world0 ()"] h
  have n: "cat25256_atomic_wait_wip_completed (Some always_busy) 0 (world0 ()) = None"
    by blast
  have r: "bus_of (cat25256_atomic_wait_wip_completed (Some (scripted MEMORY_STATUS_OK)) 0
         (world0 ([], [(MEMORY_STATUS_OK, 1), (MEMORY_STATUS_OK, 3), (MEMORY_STATUS_OK, 2)])))
       = Some (Inr (MEMORY_STATUS_OK,
           [CsEnable 0, BusWrite [5], BusRead 1, CsDisable 0,
            CsEnable 0, BusWrite [5], BusRead 1, CsDisable 0,
            CsEnable 0, BusWrite [5], BusRead 1, CsDisable 0]))"
    by code_simp
  have f: "bus_of (cat25256_atomic_wait_wip_completed (Some (scripted MEMORY_STATUS_OK)) 0
         (world0 ([], [(MEMORY_STATUS_OK, 1), (MEMORY_STATUS_NOK, 0)])))
       = Some (Inr (MEMORY_STATUS_NOK,
           [CsEnable 0, BusWrite [5], BusRead 1, CsDisable 0,
            CsEnable 0, BusWrite [5], BusRead 1, CsDisable 0]))"
    by code_simp
  from h n r f show ?thesis by blast
qed

section \<open>The status of the chip-select capabilities\<close>

lemma cat25256_atomic_wait_wip_loop_transfer:
  assumes "cat25256_atomic_wait_wip_loop h1 cs wip w = Some r"
    and "\<forall>b cs w. cat25256_read_register h1 b cs w = cat25256_read_register h2 b cs w"
  shows "cat25256_atomic_wait_wip_loop h2 cs wip w = Some r"
  using assms
proof (induction rule: cat25256_atomic_wait_wip_loop.raw_induct [rotated 1, consumes 1])
  case (1 loop handle cs wip w r)
  show ?case
  proof (cases "wip AND NREADY \<noteq> 0")
    case False
    with 1(2) show ?thesis by (simp add: cat25256_atomic_wait_wip_loop_ready ret_def)
  next
    case busy: True
    obtain rc b w1 where rr: "cat25256_read_register handle wip cs w = ret (rc, b, w1)"
      using read_register_returns by blast
    with 1(3) have rr2: "cat25256_read_register h2 wip cs w = ret (rc, b, w1)" by simp
    show ?thesis
    proof (cases "rc = MEMORY_STATUS_OK")
      case False
      with 1(2) busy rr rr2 show ?thesis
        by (simp add: cat25256_atomic_wait_wip_loop_busy) (simp add: ret_def)
    next
      case True
      with 1(2) busy rr have "loop handle cs b w1 = Some r" by (simp add: ret_def)
      from 1(1) [OF this 1(3)] True busy rr2 show ?thesis
        by (simp add: cat25256_atomic_wait_wip_loop_busy)
    qed
  qed
qed

lemma cat25256_atomic_wait_wip_loop_same:
  assumes "\<forall>b cs w. cat25256_read_register h1 b cs w = cat25256_read_register h2 b cs w"
  shows "cat25256_atomic_wait_wip_loop h1 cs wip w = cat25256_atomic_wait_wip_loop h2 cs wip w"
proof (cases "cat25256_atomic_wait_wip_loop h1 cs wip w")
  case (Some r)
  from cat25256_atomic_wait_wip_loop_transfer [OF this assms] Some show ?thesis by simp
next
  case None
  show ?thesis
  proof (cases "cat25256_atomic_wait_wip_loop h2 cs wip w")
    case (Some r)
    from assms have "\<forall>b cs w. cat25256_read_register h2 b cs w = cat25256_read_register h1 b cs w"
      by simp
    from cat25256_atomic_wait_wip_loop_transfer [OF Some this] None show ?thesis by simp
  next
    case n2: None
    with None show ?thesis by simp
  qed
qed

lemma loop_same:
  assumes "\<forall>address data len w.
     cat25256_write_page h1 address data len cs w = cat25256_write_page h2 address data len cs w"
  shows "cat25256_write_address_aligned_loop h1 address data len cs page_count i w
       = cat25256_write_address_aligned_loop h2 address data len cs page_count i w"
proof (induction "page_count - i" arbitrary: i w)
  case 0
  then have "\<not> i < page_count" by simp
  then show ?case by (simp add: loop_done)
next
  case (Suc n)
  then have lt: "i < page_count" and n: "n = page_count - (i + 1)" by simp_all
  have IH: "cat25256_write_address_aligned_loop h1 address data len cs page_count (i + 1) w'
       = cat25256_write_address_aligned_loop h2 address data len cs page_count (i + 1) w'" for w'
    by (rule Suc(1) [OF n])
  show ?case
    unfolding loop_step [OF lt] IH assms [rule_format] by (rule refl)
qed

text \<open>
  C10.  Take a valid handle \<open>h\<close> and replace its two chip-select capabilities by any
  functions that act on the bus state as the original ones do, but return whatever
  status they like.  Each of the five public operations then runs exactly as with \<open>h\<close>:
  same status, same data, same world.  So the status an operation returns does not
  depend on the statuses of \<^verbatim>\<open>cs_enable\<close> and \<^verbatim>\<open>cs_disable\<close>; in the witness both always
  fail and all five operations return \<^verbatim>\<open>MEMORY_STATUS_OK\<close>.
\<close>

theorem chip_select_status_is_ignored:
  assumes "cat25256_check_handle (Some h) = MEMORY_STATUS_OK"
    and "cs_enable h = Some en" and "\<forall>d c. snd (en' d c) = snd (en d c)"
    and "cs_disable h = Some dis" and "\<forall>d c. snd (dis' d c) = snd (dis d c)"
  shows "cat25256_read (Some (h\<lparr>cs_enable := Some en', cs_disable := Some dis'\<rparr>)) address data len cs w
           = cat25256_read (Some h) address data len cs w
       \<and> cat25256_write (Some (h\<lparr>cs_enable := Some en', cs_disable := Some dis'\<rparr>)) address data len cs w
           = cat25256_write (Some h) address data len cs w
       \<and> cat25256_write_page (Some (h\<lparr>cs_enable := Some en', cs_disable := Some dis'\<rparr>)) address data len cs w
           = cat25256_write_page (Some h) address data len cs w
       \<and> cat25256_read_register (Some (h\<lparr>cs_enable := Some en', cs_disable := Some dis'\<rparr>)) b cs w
           = cat25256_read_register (Some h) b cs w
       \<and> cat25256_write_register (Some (h\<lparr>cs_enable := Some en', cs_disable := Some dis'\<rparr>)) b cs w
           = cat25256_write_register (Some h) b cs w"
proof -
  let ?h' = "h\<lparr>cs_enable := Some en', cs_disable := Some dis'\<rparr>"
  from assms(1) obtain rd wr where h: "read h = Some rd" "write' h = Some wr"
    by (auto simp: check_handle_OK_iff)
  have h': "read ?h' = Some rd" "write' ?h' = Some wr" "cs_enable ?h' = Some en'"
      "cs_disable ?h' = Some dis'"
    using h by simp_all
  have valid': "cat25256_check_handle (Some ?h') = MEMORY_STATUS_OK"
    using h' by (simp add: check_handle_OK_iff)
  note calls = call_cs_enable_valid [OF assms(2)] call_cs_disable_valid [OF assms(4)]
    call_write_valid [OF h(2)] call_read_valid [OF h(1)]
    call_cs_enable_valid [OF h'(3)] call_cs_disable_valid [OF h'(4)]
    call_write_valid [OF h'(2)] call_read_valid [OF h'(1)]
    assms(3) [rule_format] assms(5) [rule_format]
  have ar: "cat25256_atomic_read (Some ?h') address data len cs w
           = cat25256_atomic_read (Some h) address data len cs w" for address data len cs w
    unfolding cat25256_atomic_read_def Let_def by (simp add: calls)
  have aw: "cat25256_atomic_write (Some ?h') address data len cs w
           = cat25256_atomic_write (Some h) address data len cs w" for address data len cs w
    unfolding cat25256_atomic_write_def Let_def by (simp add: calls)
  have al: "cat25256_atomic_write_latch (Some ?h') x cs w
           = cat25256_atomic_write_latch (Some h) x cs w" for x cs w
    unfolding cat25256_atomic_write_latch_def by (simp add: calls)
  have rr: "cat25256_read_register (Some ?h') b cs w
           = cat25256_read_register (Some h) b cs w" for b cs w
    unfolding cat25256_read_register_def Let_def by (simp add: calls valid' assms(1))
  have wr: "cat25256_write_register (Some ?h') b cs w
           = cat25256_write_register (Some h) b cs w" for b cs w
    unfolding cat25256_write_register_def Let_def by (simp add: calls valid' assms(1))
  have ww: "cat25256_atomic_wait_wip_completed (Some ?h') cs w
           = cat25256_atomic_wait_wip_completed (Some h) cs w" for cs w
    unfolding cat25256_atomic_wait_wip_completed_def Let_def
    by (rule cat25256_atomic_wait_wip_loop_same) (simp add: rr)
  have wp: "cat25256_write_page (Some ?h') address data len cs w
           = cat25256_write_page (Some h) address data len cs w" for address data len cs w
    unfolding cat25256_write_page_def cat25256_atomic_write_latch_enable_def
      cat25256_atomic_write_latch_disable_def Let_def wr al aw ww valid' assms(1)
    by (rule refl)
  have lp: "cat25256_write_address_aligned_loop (Some ?h') address data len cs page_count i w
       = cat25256_write_address_aligned_loop (Some h) address data len cs page_count i w"
    for address data len cs page_count i w
    by (rule loop_same) (simp add: wp)
  have wa: "cat25256_write_address_aligned (Some ?h') address data len cs w
           = cat25256_write_address_aligned (Some h) address data len cs w"
    for address data len cs w
    unfolding cat25256_write_address_aligned_def Let_def lp by (rule refl)
  have wu: "cat25256_write_address_unaligned (Some ?h') address data len cs w
           = cat25256_write_address_unaligned (Some h) address data len cs w"
    for address data len cs w
    unfolding cat25256_write_address_unaligned_def Let_def wp wa by (rule refl)
  have w: "cat25256_write (Some ?h') address data len cs w
           = cat25256_write (Some h) address data len cs w"
    unfolding cat25256_write_def wp wa wu by (rule refl)
  have r: "cat25256_read (Some ?h') address data len cs w
           = cat25256_read (Some h) address data len cs w"
    unfolding cat25256_read_def Let_def ar valid' assms(1) by (rule refl)
  from r w wp [of address data len cs w] rr [of b cs w] wr [of b cs w] show ?thesis
    by (intro conjI)
qed

theorem chip_select_status_is_ignored_witness:
  "cat25256_check_handle (Some (scripted MEMORY_STATUS_OK)) = MEMORY_STATUS_OK
   \<and> cs_enable (scripted MEMORY_STATUS_NOK) = Some (\<lambda>d cs. (MEMORY_STATUS_NOK, d))
   \<and> cs_disable (scripted MEMORY_STATUS_NOK) = Some (\<lambda>d cs. (MEMORY_STATUS_NOK, d))
   \<and> status_of (cat25256_read (Some (scripted MEMORY_STATUS_NOK)) 0 [0, 0] 2 0 (world0 ([], [])))
       = Some (Inr MEMORY_STATUS_OK)
   \<and> status_of (cat25256_write (Some (scripted MEMORY_STATUS_NOK)) 0 (replicate 65 0xAA) 65 0
         (world0 ([], [])))
       = Some (Inr MEMORY_STATUS_OK)
   \<and> status_of (cat25256_write_page (Some (scripted MEMORY_STATUS_NOK)) 0 [1, 2, 3] 3 0
         (world0 ([], [])))
       = Some (Inr MEMORY_STATUS_OK)
   \<and> status_of (cat25256_read_register (Some (scripted MEMORY_STATUS_NOK)) 0 0 (world0 ([], [])))
       = Some (Inr MEMORY_STATUS_OK)
   \<and> status_of (cat25256_write_register (Some (scripted MEMORY_STATUS_NOK)) 0 0 (world0 ([], [])))
       = Some (Inr MEMORY_STATUS_OK)"
proof -
  let ?ok = "scripted MEMORY_STATUS_OK"
  let ?w = "world0 ([], []) :: script world"
  have eq: "?ok\<lparr>cs_enable := Some (\<lambda>d cs. (MEMORY_STATUS_NOK, d)),
                cs_disable := Some (\<lambda>d cs. (MEMORY_STATUS_NOK, d))\<rparr>
            = scripted MEMORY_STATUS_NOK"
    by (simp add: scripted_def)
  have v: "cat25256_check_handle (Some ?ok) = MEMORY_STATUS_OK"
    by (simp add: cat25256_check_handle_def scripted_def Option.is_none_def)
  have en: "cs_enable ?ok = Some (\<lambda>d cs. (MEMORY_STATUS_OK, d))"
    and dis: "cs_disable ?ok = Some (\<lambda>d cs. (MEMORY_STATUS_OK, d))"
    by (simp_all add: scripted_def)
  have s: "\<forall>(d :: script) (c :: chip_select).
      snd ((\<lambda>d cs. (MEMORY_STATUS_NOK, d)) d c) = snd ((\<lambda>d cs. (MEMORY_STATUS_OK, d)) d c)"
    by simp
  note same = chip_select_status_is_ignored [OF v en s dis s, unfolded eq]
  have "status_of (cat25256_read (Some ?ok) 0 [0, 0] 2 0 ?w) = Some (Inr MEMORY_STATUS_OK)"
    by code_simp
  with same [of 0 "[0, 0]" 2 0 ?w]
  have 1: "status_of (cat25256_read (Some (scripted MEMORY_STATUS_NOK)) 0 [0, 0] 2 0 ?w)
       = Some (Inr MEMORY_STATUS_OK)"
    by simp
  have "status_of (cat25256_write (Some ?ok) 0 (replicate 65 0xAA) 65 0 ?w)
       = Some (Inr MEMORY_STATUS_OK)"
    by code_simp
  with same [of 0 "replicate 65 0xAA" 65 0 ?w]
  have 2: "status_of (cat25256_write (Some (scripted MEMORY_STATUS_NOK)) 0 (replicate 65 0xAA) 65 0 ?w)
       = Some (Inr MEMORY_STATUS_OK)"
    by simp
  have "status_of (cat25256_write_page (Some ?ok) 0 [1, 2, 3] 3 0 ?w)
       = Some (Inr MEMORY_STATUS_OK)"
    by code_simp
  with same [of 0 "[1, 2, 3]" 3 0 ?w]
  have 3: "status_of (cat25256_write_page (Some (scripted MEMORY_STATUS_NOK)) 0 [1, 2, 3] 3 0 ?w)
       = Some (Inr MEMORY_STATUS_OK)"
    by simp
  have "status_of (cat25256_read_register (Some ?ok) 0 0 ?w) = Some (Inr MEMORY_STATUS_OK)"
    and "status_of (cat25256_write_register (Some ?ok) 0 0 ?w) = Some (Inr MEMORY_STATUS_OK)"
    by code_simp+
  with same [of 0 "[]" 0 0 ?w 0]
  have 4: "status_of (cat25256_read_register (Some (scripted MEMORY_STATUS_NOK)) 0 0 ?w)
       = Some (Inr MEMORY_STATUS_OK)"
    and 5: "status_of (cat25256_write_register (Some (scripted MEMORY_STATUS_NOK)) 0 0 ?w)
       = Some (Inr MEMORY_STATUS_OK)"
    by simp_all
  have "cs_enable (scripted MEMORY_STATUS_NOK) = Some (\<lambda>d cs. (MEMORY_STATUS_NOK, d))"
    and "cs_disable (scripted MEMORY_STATUS_NOK) = Some (\<lambda>d cs. (MEMORY_STATUS_NOK, d))"
    by (simp_all add: scripted_def)
  with v 1 2 3 4 5 show ?thesis by (intro conjI)
qed

section \<open>The page writes of a request longer than one page\<close>

text \<open>
  What the aligned splitter issues when every page write succeeds: \<open>page_count\<close> page
  writes at consecutive multiples of the page size, the last one with the length
  \<open>len mod 64\<close> and all others with the length 64.
\<close>

lemma loop_page_writes:
  assumes "cat25256_write_address_aligned_loop handle address data len cs page_count i w
             = Some (Inr (MEMORY_STATUS_OK, w'))"
  shows "pages w' = pages w @
           map (\<lambda>j. (address + of_nat (j * PAGE_SIZE),
                      if j = page_count - 1 then len mod of_nat PAGE_SIZE else of_nat PAGE_SIZE,
                      MEMORY_STATUS_OK)) [i..<page_count]"
  using assms
proof (induction "page_count - i" arbitrary: i w)
  case 0
  then have "\<not> i < page_count" by simp
  with 0 show ?case by (simp add: loop_done ret_def)
next
  case (Suc n)
  then have lt: "i < page_count" and n: "n = page_count - (i + 1)" by simp_all
  let ?a = "address + of_nat (i * PAGE_SIZE)"
  let ?l = "if i = page_count - 1 then len mod of_nat PAGE_SIZE else of_nat PAGE_SIZE"
  let ?d = "drop (i * PAGE_SIZE) data"
  from Suc.prems [unfolded loop_step [OF lt]]
  show ?case
  proof (cases rule: and_then_SomeE)
    case (1 e)
    then show ?thesis by simp
  next
    case (2 x)
    with write_page_returns [of handle ?a ?d ?l cs w "Inr x"]
    obtain rc1 w1 where x: "x = (rc1, w1)" and p1: "pages w1 = pages w @ [(?a, ?l, rc1)]"
      by auto
    from 2(2) x have ok: "rc1 = MEMORY_STATUS_OK"
      by (cases "rc1 = MEMORY_STATUS_OK") (simp_all add: ret_def)
    with 2(2) x have "cat25256_write_address_aligned_loop handle address data len cs page_count (i + 1) w1
        = Some (Inr (MEMORY_STATUS_OK, w'))"
      by simp
    from Suc(1) [OF n this] p1 ok lt show ?thesis
      by (simp add: upt_conv_Cons)
  qed
qed

lemma page_count_ceiling:
  fixes n :: nat
  shows "(if n mod 64 \<noteq> 0 then n div 64 + 1 else n div 64) = (n + 63) div 64"
proof -
  have "n + 63 = (n mod 64 + 63) + (n div 64) * 64" by simp
  then have "(n + 63) div 64 = ((n mod 64 + 63) + (n div 64) * 64) div 64" by simp
  also have "\<dots> = n div 64 + (n mod 64 + 63) div 64" by (simp only: div_mult_self1)
  finally have s: "(n + 63) div 64 = n div 64 + (n mod 64 + 63) div 64" .
  show ?thesis
  proof (cases "n mod 64 = 0")
    case True
    with s show ?thesis by simp
  next
    case False
    have "n mod 64 < 64" by simp
    with False have "64 \<le> n mod 64 + 63" "n mod 64 + 63 < 2 * 64" by simp_all
    then have "(n mod 64 + 63) div 64 = 1" by (intro div_nat_eqI) simp_all
    with s False show ?thesis by simp
  qed
qed

lemma aligned_page_writes:
  assumes "cat25256_write_address_aligned handle address data len cs w
             = Some (Inr (MEMORY_STATUS_OK, w'))"
  shows "pages w' = pages w @
           map (\<lambda>j. (address + of_nat (j * PAGE_SIZE),
                      if j = (unat len + PAGE_SIZE - 1) div PAGE_SIZE - 1
                      then len mod of_nat PAGE_SIZE else of_nat PAGE_SIZE,
                      MEMORY_STATUS_OK)) [0..<(unat len + PAGE_SIZE - 1) div PAGE_SIZE]"
proof -
  have "(if len mod of_nat PAGE_SIZE \<noteq> 0 then unat (len div of_nat PAGE_SIZE) + 1
         else unat (len div of_nat PAGE_SIZE)) = (unat len + PAGE_SIZE - 1) div PAGE_SIZE"
  proof -
    have "len mod 64 = 0 \<longleftrightarrow> unat (len mod 64) = 0" by (simp add: unat_eq_0)
    then have m: "len mod 64 = 0 \<longleftrightarrow> unat len mod 64 = 0" by (simp add: unat_mod)
    have "unat (len div 64) = unat len div 64" by (simp add: unat_div)
    with m page_count_ceiling [of "unat len"] show ?thesis
      by (auto simp: PAGE_SIZE_def add.commute split: if_splits)
  qed
  with assms have "cat25256_write_address_aligned_loop handle address data len cs
      ((unat len + PAGE_SIZE - 1) div PAGE_SIZE) 0 w = Some (Inr (MEMORY_STATUS_OK, w'))"
    by (simp add: cat25256_write_address_aligned_def Let_def)
  from loop_page_writes [OF this] show ?thesis .
qed

text \<open>
  C1.  The request of the spec's scenario, 128 bytes at the page-aligned address 64, on a
  bus where every call succeeds and the device is ready at once.  The driver issues two
  page writes, but the second one, at address 128, has the length 0 and sends an empty
  payload: the bytes 64..127 of the buffer never reach the bus.
\<close>

theorem write_aligned_128_bytes_second_page_is_empty:
  "pages_of (cat25256_write (Some (scripted MEMORY_STATUS_OK)) 64 (replicate 128 0xAA) 128 0
       (world0 ([], [])))
     = Some (Inr (MEMORY_STATUS_OK, [(64, 64, MEMORY_STATUS_OK), (128, 0, MEMORY_STATUS_OK)]))
   \<and> bus_of (cat25256_write (Some (scripted MEMORY_STATUS_OK)) 64 (replicate 128 0xAA) 128 0
       (world0 ([], [])))
     = Some (Inr (MEMORY_STATUS_OK,
         [CsEnable 0, BusWrite [1, 1], CsDisable 0,
          CsEnable 0, BusWrite [6], CsDisable 0,
          CsEnable 0, BusWrite [2, 0, 64], BusWrite (replicate 64 0xAA), CsDisable 0,
          CsEnable 0, BusWrite [4], CsDisable 0,
          CsEnable 0, BusWrite [5], BusRead 1, CsDisable 0,
          CsEnable 0, BusWrite [1, 1], CsDisable 0,
          CsEnable 0, BusWrite [6], CsDisable 0,
          CsEnable 0, BusWrite [2, 0, 128], BusWrite [], CsDisable 0,
          CsEnable 0, BusWrite [4], CsDisable 0,
          CsEnable 0, BusWrite [5], BusRead 1, CsDisable 0]))"
  by code_simp

text \<open>
  C2.  A request of 68 bytes at the unaligned address 60, on the same bus.  The first
  page write covers the 4 bytes up to the page boundary at 64.  The remaining 64 bytes go
  to the aligned splitter, which issues one page write of length 0 at address 64 with an
  empty payload: the lengths add up to 4, not to 68.
\<close>

theorem write_unaligned_68_bytes_remainder_is_empty:
  "pages_of (cat25256_write (Some (scripted MEMORY_STATUS_OK)) 60 (replicate 68 0xAA) 68 0
       (world0 ([], [])))
     = Some (Inr (MEMORY_STATUS_OK, [(60, 4, MEMORY_STATUS_OK), (64, 0, MEMORY_STATUS_OK)]))
   \<and> bus_of (cat25256_write (Some (scripted MEMORY_STATUS_OK)) 60 (replicate 68 0xAA) 68 0
       (world0 ([], [])))
     = Some (Inr (MEMORY_STATUS_OK,
         [CsEnable 0, BusWrite [1, 1], CsDisable 0,
          CsEnable 0, BusWrite [6], CsDisable 0,
          CsEnable 0, BusWrite [2, 0, 60], BusWrite [0xAA, 0xAA, 0xAA, 0xAA], CsDisable 0,
          CsEnable 0, BusWrite [4], CsDisable 0,
          CsEnable 0, BusWrite [5], BusRead 1, CsDisable 0,
          CsEnable 0, BusWrite [1, 1], CsDisable 0,
          CsEnable 0, BusWrite [6], CsDisable 0,
          CsEnable 0, BusWrite [2, 0, 64], BusWrite [], CsDisable 0,
          CsEnable 0, BusWrite [4], CsDisable 0,
          CsEnable 0, BusWrite [5], BusRead 1, CsDisable 0]))"
  by code_simp

end
